theory Spec2Isabelle
  imports Main "HOL-Library.AList" "HOL-Library.List_Lexorder" "HOL-Library.Char_ord"
begin

section \<open>Strings as the line parser uses them\<close>

text \<open>
  A line is a list of 8-bit code units. \<open>trim\<close> removes the white space of
  \<open>String.prototype.trim\<close> that fits in that range (TAB, LF, VT, FF, CR, SP, NBSP) from
  both ends; \<open>split_on\<close> is \<open>String.prototype.split\<close> with a one-character separator,
  so the empty string splits into one empty field.
\<close>

definition js_whitespace :: "char \<Rightarrow> bool" where
  "js_whitespace c =
     (c \<in> set [CHR 0x09, CHR 0x0A, CHR 0x0B, CHR 0x0C, CHR 0x0D, CHR 0x20, CHR 0xA0])"

definition trim :: "string \<Rightarrow> string" where
  "trim s = rev (dropWhile js_whitespace (rev (dropWhile js_whitespace s)))"

fun split_on :: "char \<Rightarrow> string \<Rightarrow> string list" where
  "split_on sep [] = [[]]"
| "split_on sep (c # cs) =
     (if c = sep then [] # split_on sep cs
      else (case split_on sep cs of [] \<Rightarrow> [[c]] | p # ps \<Rightarrow> (c # p) # ps))"

definition digit_char :: "nat \<Rightarrow> char" where
  "digit_char d =
     (if d = 0 then CHR ''0'' else if d = 1 then CHR ''1'' else if d = 2 then CHR ''2''
      else if d = 3 then CHR ''3'' else if d = 4 then CHR ''4'' else if d = 5 then CHR ''5''
      else if d = 6 then CHR ''6'' else if d = 7 then CHR ''7'' else if d = 8 then CHR ''8''
      else CHR ''9'')"

fun digits :: "nat \<Rightarrow> string" where
  "digits n = (if n < 10 then [digit_char n] else digits (n div 10) @ [digit_char (n mod 10)])"

definition to_upper :: "char \<Rightarrow> char" where
  "to_upper c =
     (if CHR ''a'' \<le> c \<and> c \<le> CHR ''z'' then char_of (of_char c - (32::nat)) else c)"

definition toUpperCase :: "string \<Rightarrow> string" where
  "toUpperCase s = map to_upper s"

subsection \<open>isValidUUID\<close>

text \<open>
  The regular expression
  \<^verbatim>\<open>/^[0-9a-f]{8}-[0-9a-f]{4}-[1-5][0-9a-f]{3}-[89ab][0-9a-f]{3}-[0-9a-f]{12}$/i\<close>
  as a list of character classes, one per position.
\<close>

datatype char_class = Hex | Dash | Version | Variant

definition is_hex :: "char \<Rightarrow> bool" where
  "is_hex c = (c \<in> set ''0123456789abcdefABCDEF'')"

fun in_class :: "char \<Rightarrow> char_class \<Rightarrow> bool" where
  "in_class c Hex = is_hex c"
| "in_class c Dash = (c = CHR ''-'')"
| "in_class c Version = (c \<in> set ''12345'')"
| "in_class c Variant = (c \<in> set ''89abAB'')"

definition uuid_pattern :: "char_class list" where
  "uuid_pattern =
     replicate 8 Hex @ [Dash] @ replicate 4 Hex @ [Dash, Version] @ replicate 3 Hex
     @ [Dash, Variant] @ replicate 3 Hex @ [Dash] @ replicate 12 Hex"

definition isValidUUID :: "string \<Rightarrow> bool" where
  "isValidUUID str = list_all2 in_class str uuid_pattern"

section \<open>Line Parser: \<open>FileIngestionService.parseLine\<close>\<close>

text \<open>
  Timestamps are milliseconds since the epoch, as a JavaScript \<open>Date\<close> holds them.
  \<open>new Date(text)\<close> is not code of the repository: it is the parameter \<open>parseDate\<close>,
  \<open>None\<close> standing for an invalid date (\<open>getTime()\<close> is NaN).
\<close>

type_synonym timestamp = int

record metadata =
  source_file :: string
  line_number :: nat
  parsing_flags :: "string list"

record event_data =
  event_id :: string
  event_name :: string
  description :: "string option"
  start_date :: timestamp
  end_date :: timestamp
  parent_event_id :: "string option"
  metadata :: metadata

text \<open>
  The code throws \<open>Error\<close> objects that differ in their message only; each message
  template is one constructor, and \<open>error_message\<close> renders the text.
\<close>

datatype parse_error =
    MalformedEntry nat
  | InvalidUUID string
  | InvalidStartDate string
  | InvalidEndDate string
  | DateOrderError
  | InvalidParentUUID string

fun error_message :: "parse_error \<Rightarrow> string" where
  "error_message (MalformedEntry n) = ''Malformed entry: expected 6 fields, got '' @ digits n"
| "error_message (InvalidUUID s) = ''Invalid UUID format: '' @ [CHR 0x27] @ s @ [CHR 0x27]"
| "error_message (InvalidStartDate s) =
     ''Invalid start date format: '' @ [CHR 0x27] @ s @ [CHR 0x27]"
| "error_message (InvalidEndDate s) =
     ''Invalid end date format: '' @ [CHR 0x27] @ s @ [CHR 0x27]"
| "error_message DateOrderError = ''Start date must be before end date''"
| "error_message (InvalidParentUUID s) =
     ''Invalid parent UUID format: '' @ [CHR 0x27] @ s @ [CHR 0x27]"

definition make_draft ::
  "string list \<Rightarrow> timestamp \<Rightarrow> timestamp \<Rightarrow> string option \<Rightarrow> nat \<Rightarrow> string \<Rightarrow> event_data" where
  "make_draft parts startDateObj endDateObj parentEventId lineNumber filePath =
     \<lparr> event_id = trim (parts ! 0),
       event_name = trim (parts ! 1),
       description = (if trim (parts ! 5) = [] then None else Some (trim (parts ! 5))),
       start_date = startDateObj,
       end_date = endDateObj,
       parent_event_id = parentEventId,
       metadata = \<lparr> source_file = filePath, line_number = lineNumber, parsing_flags = [] \<rparr> \<rparr>"

definition parseLine ::
  "(string \<Rightarrow> timestamp option) \<Rightarrow> string \<Rightarrow> nat \<Rightarrow> string \<Rightarrow> parse_error + event_data option"
where
  "parseLine parseDate line lineNumber filePath =
     (if trim line = [] then Inr None
      else
        let parts = split_on CHR ''|'' line in
        if length parts \<noteq> 6 then Inl (MalformedEntry (length parts))
        else if \<not> isValidUUID (trim (parts ! 0)) then Inl (InvalidUUID (trim (parts ! 0)))
        else
          case parseDate (trim (parts ! 2)) of
            None \<Rightarrow> Inl (InvalidStartDate (trim (parts ! 2)))
          | Some startDateObj \<Rightarrow>
              (case parseDate (trim (parts ! 3)) of
                 None \<Rightarrow> Inl (InvalidEndDate (trim (parts ! 3)))
               | Some endDateObj \<Rightarrow>
                   if startDateObj \<ge> endDateObj then Inl DateOrderError
                   else
                     let parentIdTrimmed = trim (parts ! 4) in
                     if parentIdTrimmed \<noteq> [] \<and> toUpperCase parentIdTrimmed \<noteq> ''NULL''
                     then
                       (if \<not> isValidUUID parentIdTrimmed
                        then Inl (InvalidParentUUID parentIdTrimmed)
                        else Inr (Some (make_draft parts startDateObj endDateObj
                                          (Some parentIdTrimmed) lineNumber filePath)))
                     else Inr (Some (make_draft parts startDateObj endDateObj
                                       None lineNumber filePath))))"

section \<open>Job Ledger: \<open>IngestionJob\<close> over the table \<open>ingestion_jobs\<close>\<close>

text \<open>
  The table is the list of its rows. \<open>status\<close> is a datatype because of the table's
  check constraint \<open>chk_job_status\<close>; \<open>job_id\<close> is the primary key, a
  \<open>VARCHAR(50)\<close>. \<open>CURRENT_TIMESTAMP\<close> and \<open>new Date()\<close> are the parameter
  \<open>now\<close>. Logging is left out: it has no part in the control flow.
\<close>

datatype job_status = PROCESSING | COMPLETED | FAILED

record ingestion_job =
  job_id :: string
  status :: job_status
  file_path :: string
  total_lines :: int
  processed_lines :: int
  error_lines :: int
  errors :: "string list"
  start_time :: timestamp
  end_time :: "timestamp option"

type_synonym ledger = "ingestion_job list"

text \<open>The argument of the constructor: every field but the key may be missing.\<close>

record job_data =
  data_job_id :: string
  data_status :: "job_status option"
  data_file_path :: string
  data_total_lines :: "int option"
  data_processed_lines :: "int option"
  data_error_lines :: "int option"
  data_errors :: "string list option"
  data_start_time :: "timestamp option"

definition or_default :: "'a option \<Rightarrow> 'a \<Rightarrow> 'a" where
  "or_default v d = (case v of None \<Rightarrow> d | Some x \<Rightarrow> x)"

definition findById :: "ledger \<Rightarrow> string \<Rightarrow> ingestion_job option" where
  "findById l jobId = find (\<lambda>j. job_id j = jobId) l"

text \<open>\<open>UPDATE ingestion_jobs SET ... WHERE job_id = $n\<close>: no row, no change, no error.\<close>

definition update_where :: "string \<Rightarrow> (ingestion_job \<Rightarrow> ingestion_job) \<Rightarrow> ledger \<Rightarrow> ledger" where
  "update_where jobId f l = map (\<lambda>j. if job_id j = jobId then f j else j) l"

text \<open>
  The \<open>updates\<close> object of \<open>updateProgress\<close> is the list of its keys with their values;
  \<open>Unlisted\<close> is a key outside \<open>allowedFields\<close>.
\<close>

datatype job_field =
    Status job_status
  | TotalLines int
  | ProcessedLines int
  | ErrorLines int
  | Errors "string list"
  | EndTime timestamp
  | Unlisted string

fun allowedField :: "job_field \<Rightarrow> bool" where
  "allowedField (Unlisted k) = False"
| "allowedField f = True"

fun set_field :: "ingestion_job \<Rightarrow> job_field \<Rightarrow> ingestion_job" where
  "set_field j (Status v) = j\<lparr>status := v\<rparr>"
| "set_field j (TotalLines v) = j\<lparr>total_lines := v\<rparr>"
| "set_field j (ProcessedLines v) = j\<lparr>processed_lines := v\<rparr>"
| "set_field j (ErrorLines v) = j\<lparr>error_lines := v\<rparr>"
| "set_field j (Errors v) = j\<lparr>errors := v\<rparr>"
| "set_field j (EndTime v) = j\<lparr>end_time := Some v\<rparr>"
| "set_field j (Unlisted k) = j"

subsection \<open>Statements sent to the database\<close>

text \<open>
  Every write of \<open>IngestionJob\<close> is one statement handed to \<open>query\<close>, which is not
  code of the repository. A statement is described by the function that sends it and
  its parameters; \<open>effect\<close> is what the SQL text does to the table when the server
  accepts it.
\<close>

datatype ledger_query =
    InsertJob ingestion_job
  | UpdateJob string "job_field list"
  | AppendError string string
  | CompleteJob string timestamp
  | FailJob string string timestamp

fun effect :: "ledger_query \<Rightarrow> ledger \<Rightarrow> ledger" where
  "effect (InsertJob job) l = l @ [job]"
| "effect (UpdateJob jobId updateFields) l =
     update_where jobId (\<lambda>j. foldl set_field j updateFields) l"
| "effect (AppendError jobId errorMessage) l =
     update_where jobId
       (\<lambda>j. j\<lparr>errors := errors j @ [errorMessage], error_lines := error_lines j + 1\<rparr>) l"
| "effect (CompleteJob jobId now) l =
     update_where jobId (\<lambda>j. j\<lparr>status := COMPLETED, end_time := Some now\<rparr>) l"
| "effect (FailJob jobId errorMessage now) l =
     update_where jobId
       (\<lambda>j. j\<lparr>status := FAILED, end_time := Some now, errors := errors j @ [errorMessage]\<rparr>) l"

text \<open>
  The database is the table together with the record of every statement sent: the table
  the statement found, the statement, the server's verdict (\<open>None\<close> accepted, else the
  error's message) and the table it left. The code keeps no such record: it is there so
  that a property of every statement of a run can be stated.

  Whether the server accepts a statement is the parameter \<open>pg\<close>, asked with the number
  of statements sent before, the table and the statement. It stands for everything that
  makes \<open>query\<close> reject: a value out of range for an \<open>INTEGER\<close> column, a string the
  server cannot store (U+0000 in a JSON text), a lost connection. The key constraints of
  the schema are written out, because they decide which rows later statements reach:
  an insert is rejected when the identifier is longer than 50 characters or already
  present.
\<close>

record ledger_entry =
  table_before :: ledger
  statement :: ledger_query
  verdict :: "string option"
  table_after :: ledger

record ledger_db =
  table :: ledger
  history :: "ledger_entry list"

type_synonym pg_server = "nat \<Rightarrow> ledger \<Rightarrow> ledger_query \<Rightarrow> string option"

definition key_violation :: "ledger \<Rightarrow> ledger_query \<Rightarrow> string option" where
  "key_violation l q =
     (case q of
        InsertJob job \<Rightarrow>
          if length (job_id job) > 50
          then Some ''value too long for type character varying(50)''
          else if job_id job \<in> set (map job_id l)
          then Some (''duplicate key value violates unique constraint ''
                       @ [CHR 0x22] @ ''ingestion_jobs_pkey'' @ [CHR 0x22])
          else None
      | _ \<Rightarrow> None)"

definition server_verdict :: "pg_server \<Rightarrow> ledger_db \<Rightarrow> ledger_query \<Rightarrow> string option" where
  "server_verdict pg db q =
     (case pg (length (history db)) (table db) q of
        Some msg \<Rightarrow> Some msg
      | None \<Rightarrow> key_violation (table db) q)"

definition query :: "pg_server \<Rightarrow> ledger_db \<Rightarrow> ledger_query \<Rightarrow> string option \<times> ledger_db" where
  "query pg db q =
     (let r = server_verdict pg db q;
          t = (case r of None \<Rightarrow> effect q (table db) | Some msg \<Rightarrow> table db)
      in (r, \<lparr> table = t,
               history = history db
                 @ [\<lparr> table_before = table db, statement = q, verdict = r, table_after = t \<rparr>] \<rparr>))"

subsection \<open>The functions of \<open>IngestionJob\<close> that write\<close>

text \<open>
  Each returns the message of the error it rethrows, if any, with the database it
  leaves. \<open>create\<close> returns the inserted row.
\<close>

definition create ::
  "pg_server \<Rightarrow> timestamp \<Rightarrow> ledger_db \<Rightarrow> job_data \<Rightarrow> (string + ingestion_job) \<times> ledger_db" where
  "create pg now db jobData =
     (let job = \<lparr> job_id = data_job_id jobData,
                   status = or_default (data_status jobData) PROCESSING,
                   file_path = data_file_path jobData,
                   total_lines = or_default (data_total_lines jobData) 0,
                   processed_lines = or_default (data_processed_lines jobData) 0,
                   error_lines = or_default (data_error_lines jobData) 0,
                   errors = or_default (data_errors jobData) [],
                   start_time = or_default (data_start_time jobData) now,
                   end_time = None \<rparr>
      in case query pg db (InsertJob job) of
           (Some msg, db') \<Rightarrow> (Inl msg, db')
         | (None, db') \<Rightarrow> (Inr job, db'))"

definition updateProgress ::
  "pg_server \<Rightarrow> ledger_db \<Rightarrow> string \<Rightarrow> job_field list \<Rightarrow> string option \<times> ledger_db" where
  "updateProgress pg db jobId updates =
     (let updateFields = filter allowedField updates in
      if updateFields = [] then (Some ''No valid fields to update'', db)
      else query pg db (UpdateJob jobId updateFields))"

definition addError ::
  "pg_server \<Rightarrow> ledger_db \<Rightarrow> string \<Rightarrow> string \<Rightarrow> string option \<times> ledger_db" where
  "addError pg db jobId errorMessage = query pg db (AppendError jobId errorMessage)"

definition complete ::
  "pg_server \<Rightarrow> timestamp \<Rightarrow> ledger_db \<Rightarrow> string \<Rightarrow> string option \<times> ledger_db" where
  "complete pg now db jobId = query pg db (CompleteJob jobId now)"

definition fail ::
  "pg_server \<Rightarrow> timestamp \<Rightarrow> ledger_db \<Rightarrow> string \<Rightarrow> string \<Rightarrow> string option \<times> ledger_db" where
  "fail pg now db jobId errorMessage = query pg db (FailJob jobId errorMessage now)"

section \<open>Ingestion Controller: \<open>FileIngestionService\<close>\<close>

subsection \<open>startIngestion and getJobStatus\<close>

text \<open>
  The file system is a map from paths to what the process finds there: nothing that it
  can reach (\<open>NoEntry\<close>, with the message of the error: no such file, or a directory
  on the way that it may not search), a directory, or a regular file that it may read or
  not. \<open>fs.access(filePath)\<close> is called without a mode, which tests that the path
  exists and nothing more: it rejects, with that message, exactly when there is no entry.
\<close>

datatype fs_entry = NoEntry string | Directory | RegularFile bool

definition readable_file :: "fs_entry \<Rightarrow> bool" where
  "readable_file e = (case e of RegularFile readable \<Rightarrow> readable | _ \<Rightarrow> False)"

definition access :: "(string \<Rightarrow> fs_entry) \<Rightarrow> string \<Rightarrow> string option" where
  "access fs path = (case fs path of NoEntry msg \<Rightarrow> Some msg | _ \<Rightarrow> None)"

text \<open>
  The clock (\<open>Date.now()\<close> in the identifier, \<open>new Date()\<close> as start time) is read as
  \<open>now\<close>, and the random \<open>uuidv4()\<close> is a parameter too. \<open>startIngestion\<close> returns
  its outcome, the database it leaves and the background task it has started and not
  awaited (\<open>processFile\<close> with its arguments), if any.
\<close>

definition generateJobId :: "timestamp \<Rightarrow> string \<Rightarrow> string" where
  "generateJobId now uuid = ''ingest-job-'' @ digits (nat now) @ ''-'' @ take 8 uuid"

record ingestion_response =
  init_status :: string
  init_jobId :: string
  init_message :: string

definition startIngestion ::
  "(string \<Rightarrow> fs_entry) \<Rightarrow> pg_server \<Rightarrow> timestamp \<Rightarrow> string \<Rightarrow> ledger_db \<Rightarrow> string
     \<Rightarrow> (string + ingestion_response) \<times> ledger_db \<times> (string \<times> string) option" where
  "startIngestion fs pg now uuid db filePath =
     (let jobId = generateJobId now uuid in
      case access fs filePath of
        Some msg \<Rightarrow> (Inl (''Failed to start ingestion: '' @ msg), db, None)
      | None \<Rightarrow>
          (case create pg now db \<lparr> data_job_id = jobId, data_status = Some PROCESSING,
                                   data_file_path = filePath, data_total_lines = None,
                                   data_processed_lines = None, data_error_lines = None,
                                   data_errors = None, data_start_time = None \<rparr> of
             (Inl msg, db') \<Rightarrow> (Inl (''Failed to start ingestion: '' @ msg), db', None)
           | (Inr job, db') \<Rightarrow>
               (Inr \<lparr> init_status = ''Ingestion initiated'',
                      init_jobId = jobId,
                      init_message = ''Check /api/events/ingestion-status/'' @ jobId
                                       @ '' for updates.'' \<rparr>,
                db', Some (jobId, filePath))))"

text \<open>
  The response object: \<open>startTime\<close> and \<open>endTime\<close> are keys that may be missing
  (\<open>None\<close>); when present, \<open>endTime\<close> holds the column's value, which may be null.
\<close>

record job_snapshot =
  resp_jobId :: string
  resp_status :: job_status
  resp_processedLines :: int
  resp_errorLines :: int
  resp_totalLines :: int
  resp_errors :: "string list"
  resp_startTime :: "timestamp option"
  resp_endTime :: "timestamp option option"

definition getJobStatus :: "ledger \<Rightarrow> string \<Rightarrow> string + job_snapshot" where
  "getJobStatus l jobId =
     (case findById l jobId of
        None \<Rightarrow> Inl ''Job not found''
      | Some job \<Rightarrow>
          (let response = \<lparr> resp_jobId = job_id job,
                             resp_status = status job,
                             resp_processedLines = processed_lines job,
                             resp_errorLines = error_lines job,
                             resp_totalLines = total_lines job,
                             resp_errors = errors job,
                             resp_startTime = None,
                             resp_endTime = None \<rparr>
           in if status job = COMPLETED
              then Inr (response\<lparr>resp_startTime := Some (start_time job),
                                 resp_endTime := Some (end_time job)\<rparr>)
              else Inr response))"

subsection \<open>processFile\<close>

text \<open>
  What a read stream over the file gives \<open>readline\<close>: the lines it delivers and, if the
  stream fails after them, the error's message. \<open>createReadStream\<close> is a parameter;
  \<open>processFile\<close> opens the file twice, and the parameter is asked with the pass that
  opens it (the count of the lines, then the loop over them), so that the two passes
  need not see the same thing.
\<close>

datatype pass = CountPass | LoopPass

record read_stream =
  delivered :: "string list"
  failure :: "string option"

definition countLines :: "read_stream \<Rightarrow> string + nat" where
  "countLines rs = (case failure rs of Some e \<Rightarrow> Inl e | None \<Rightarrow> Inr (length (delivered rs)))"

text \<open>
  \<open>HistoricalEvent.bulkCreate\<close> returns at once on an empty list and otherwise runs the
  inserts inside \<open>transaction\<close>, which is not code of the repository: the parameter
  \<open>txn\<close> gives, for the Event Store's state and a batch, whether the transaction commits
  and the state it leaves.
\<close>

definition bulkCreate :: "('st \<Rightarrow> event_data list \<Rightarrow> bool \<times> 'st) \<Rightarrow> 'st \<Rightarrow> event_data list \<Rightarrow> bool \<times> 'st" where
  "bulkCreate txn st evs = (if evs = [] then (True, st) else txn st evs)"

definition batchSize :: nat where
  "batchSize = 100"

text \<open>The local variables of \<open>processFile\<close>, with the two stores it writes to.\<close>

record 'st loop_state =
  lineNumber :: nat
  processedLines :: int
  errorLines :: int
  eventBatch :: "event_data list"
  jobs :: ledger_db
  store :: 'st

text \<open>
  One turn of the \<open>for await\<close> loop, in its three parts. An exception that leaves the
  loop is \<open>Inl\<close> with its message and the state reached: the awaited \<open>addError\<close> in the
  \<open>catch\<close> of a line that does not parse, and the progress update, rethrow what the
  database rejects; a failed \<open>bulkCreate\<close> is caught on the spot.
\<close>

definition parse_step ::
  "pg_server \<Rightarrow> (string \<Rightarrow> timestamp option) \<Rightarrow> string \<Rightarrow> string \<Rightarrow> 'st loop_state \<Rightarrow> string
     \<Rightarrow> string \<times> 'st loop_state + 'st loop_state" where
  "parse_step pg parseDate jobId filePath s line =
     (let s1 = s\<lparr>lineNumber := lineNumber s + 1\<rparr> in
      case parseLine parseDate line (lineNumber s1) filePath of
        Inr (Some eventData) \<Rightarrow>
          Inr (s1\<lparr>eventBatch := eventBatch s1 @ [eventData],
                  processedLines := processedLines s1 + 1\<rparr>)
      | Inr None \<Rightarrow> Inr s1
      | Inl err \<Rightarrow>
          (let s2 = s1\<lparr>errorLines := errorLines s1 + 1\<rparr> in
           case addError pg (jobs s2) jobId
                  (''Line '' @ digits (lineNumber s2) @ '': '' @ error_message err) of
             (Some e, db) \<Rightarrow> Inl (e, s2\<lparr>jobs := db\<rparr>)
           | (None, db) \<Rightarrow> Inr (s2\<lparr>jobs := db\<rparr>)))"

definition batch_step ::
  "('st \<Rightarrow> event_data list \<Rightarrow> bool \<times> 'st) \<Rightarrow> 'st loop_state \<Rightarrow> 'st loop_state" where
  "batch_step txn s =
     (if length (eventBatch s) \<ge> batchSize then
        (case bulkCreate txn (store s) (eventBatch s) of
           (True, st) \<Rightarrow> s\<lparr>store := st, eventBatch := []\<rparr>
         | (False, st) \<Rightarrow>
             s\<lparr>store := st,
               errorLines := errorLines s + int (length (eventBatch s)),
               processedLines := processedLines s - int (length (eventBatch s)),
               eventBatch := []\<rparr>)
      else s)"

definition progress_step ::
  "pg_server \<Rightarrow> string \<Rightarrow> 'st loop_state \<Rightarrow> string \<times> 'st loop_state + 'st loop_state" where
  "progress_step pg jobId s =
     (if lineNumber s mod 100 = 0 then
        (case updateProgress pg (jobs s) jobId
                [ProcessedLines (processedLines s), ErrorLines (errorLines s)] of
           (Some e, db) \<Rightarrow> Inl (e, s\<lparr>jobs := db\<rparr>)
         | (None, db) \<Rightarrow> Inr (s\<lparr>jobs := db\<rparr>))
      else Inr s)"

definition process_line ::
  "pg_server \<Rightarrow> (string \<Rightarrow> timestamp option) \<Rightarrow> ('st \<Rightarrow> event_data list \<Rightarrow> bool \<times> 'st)
     \<Rightarrow> string \<Rightarrow> string \<Rightarrow> 'st loop_state \<Rightarrow> string
     \<Rightarrow> string \<times> 'st loop_state + 'st loop_state" where
  "process_line pg parseDate txn jobId filePath s line =
     (case parse_step pg parseDate jobId filePath s line of
        Inl e \<Rightarrow> Inl e
      | Inr s1 \<Rightarrow> progress_step pg jobId (batch_step txn s1))"

fun process_lines ::
  "pg_server \<Rightarrow> (string \<Rightarrow> timestamp option) \<Rightarrow> ('st \<Rightarrow> event_data list \<Rightarrow> bool \<times> 'st)
     \<Rightarrow> string \<Rightarrow> string \<Rightarrow> 'st loop_state \<Rightarrow> string list
     \<Rightarrow> string \<times> 'st loop_state + 'st loop_state" where
  "process_lines pg parseDate txn jobId filePath s [] = Inr s"
| "process_lines pg parseDate txn jobId filePath s (line # rest) =
     (case process_line pg parseDate txn jobId filePath s line of
        Inl e \<Rightarrow> Inl e
      | Inr s' \<Rightarrow> process_lines pg parseDate txn jobId filePath s' rest)"

text \<open>The remaining events after the loop: the last, partial batch.\<close>

definition final_batch ::
  "('st \<Rightarrow> event_data list \<Rightarrow> bool \<times> 'st) \<Rightarrow> 'st loop_state \<Rightarrow> 'st loop_state" where
  "final_batch txn s =
     (if length (eventBatch s) > 0 then
        (case bulkCreate txn (store s) (eventBatch s) of
           (True, st) \<Rightarrow> s\<lparr>store := st\<rparr>
         | (False, st) \<Rightarrow>
             s\<lparr>store := st,
               errorLines := errorLines s + int (length (eventBatch s)),
               processedLines := processedLines s - int (length (eventBatch s))\<rparr>)
      else s)"

text \<open>
  The body of the \<open>try\<close> block: \<open>Inr\<close> the two stores when it runs to its end, \<open>Inl\<close> the
  message of the exception and the stores at that point.
\<close>

definition processFile_try ::
  "pg_server \<Rightarrow> (string \<Rightarrow> timestamp option) \<Rightarrow> ('st \<Rightarrow> event_data list \<Rightarrow> bool \<times> 'st)
     \<Rightarrow> timestamp \<Rightarrow> (pass \<Rightarrow> string \<Rightarrow> read_stream) \<Rightarrow> string \<Rightarrow> string \<Rightarrow> ledger_db \<times> 'st
     \<Rightarrow> string \<times> ledger_db \<times> 'st + ledger_db \<times> 'st" where
  "processFile_try pg parseDate txn now createReadStream jobId filePath w =
     (case countLines (createReadStream CountPass filePath) of
        Inl e \<Rightarrow> Inl (e, w)
      | Inr totalLines \<Rightarrow>
          (case updateProgress pg (fst w) jobId [TotalLines (int totalLines)] of
             (Some e, db) \<Rightarrow> Inl (e, db, snd w)
           | (None, db) \<Rightarrow>
               (case process_lines pg parseDate txn jobId filePath
                       \<lparr> lineNumber = 0, processedLines = 0, errorLines = 0, eventBatch = [],
                         jobs = db, store = snd w \<rparr>
                       (delivered (createReadStream LoopPass filePath)) of
                  Inl (e, s) \<Rightarrow> Inl (e, jobs s, store s)
                | Inr s \<Rightarrow>
                    (case failure (createReadStream LoopPass filePath) of
                       Some e \<Rightarrow> Inl (e, jobs s, store s)
                     | None \<Rightarrow>
                         (let s' = final_batch txn s in
                          case updateProgress pg (jobs s') jobId
                                 [ProcessedLines (processedLines s'),
                                  ErrorLines (errorLines s'),
                                  Status COMPLETED, EndTime now] of
                            (Some e, db') \<Rightarrow> Inl (e, db', store s')
                          | (None, db') \<Rightarrow> Inr (db', store s'))))))"

text \<open>
  \<open>processFile\<close> with its \<open>catch\<close>: the promise resolves (\<open>None\<close>) unless
  \<open>IngestionJob.fail\<close> itself is rejected, whose error it then carries.
\<close>

definition processFile ::
  "pg_server \<Rightarrow> (string \<Rightarrow> timestamp option) \<Rightarrow> ('st \<Rightarrow> event_data list \<Rightarrow> bool \<times> 'st)
     \<Rightarrow> timestamp \<Rightarrow> (pass \<Rightarrow> string \<Rightarrow> read_stream) \<Rightarrow> string \<Rightarrow> string \<Rightarrow> ledger_db \<times> 'st
     \<Rightarrow> string option \<times> ledger_db \<times> 'st" where
  "processFile pg parseDate txn now createReadStream jobId filePath w =
     (case processFile_try pg parseDate txn now createReadStream jobId filePath w of
        Inr w' \<Rightarrow> (None, w')
      | Inl (e, db, st) \<Rightarrow>
          (case fail pg now db jobId (''Processing failed: '' @ e) of
             (r, db') \<Rightarrow> (r, db', st)))"

text \<open>
  The background task that \<open>startIngestion\<close> starts:
  \<open>this.processFile(jobId, filePath).catch(...)\<close>. When \<open>processFile\<close> rejects, the
  handler calls \<open>IngestionJob.fail\<close> once more and nobody awaits the outcome.
\<close>

definition ingestion_task ::
  "pg_server \<Rightarrow> (string \<Rightarrow> timestamp option) \<Rightarrow> ('st \<Rightarrow> event_data list \<Rightarrow> bool \<times> 'st)
     \<Rightarrow> timestamp \<Rightarrow> (pass \<Rightarrow> string \<Rightarrow> read_stream) \<Rightarrow> string \<Rightarrow> string \<Rightarrow> ledger_db \<times> 'st
     \<Rightarrow> ledger_db \<times> 'st" where
  "ingestion_task pg parseDate txn now createReadStream jobId filePath w =
     (case processFile pg parseDate txn now createReadStream jobId filePath w of
        (None, w') \<Rightarrow> w'
      | (Some e, db, st) \<Rightarrow> (snd (fail pg now db jobId (''Processing failed: '' @ e)), st))"

subsection \<open>The accounting the specification describes\<close>

text \<open>
  These functions follow the specification's words, not the code: the parsed drafts of
  a file in line order, the number of lines that fail to parse, the drafts cut into
  consecutive batches of a fixed size (the last one partial), and the outcome of
  offering every batch to the Event Store exactly once, in order: a batch that commits
  counts as processed, a batch that fails counts as errors, whole.
\<close>

fun drafts_from ::
  "(string \<Rightarrow> timestamp option) \<Rightarrow> string \<Rightarrow> nat \<Rightarrow> string list \<Rightarrow> event_data list" where
  "drafts_from parseDate fp n [] = []"
| "drafts_from parseDate fp n (line # rest) =
     (case parseLine parseDate line (Suc n) fp of
        Inr (Some d) \<Rightarrow> d # drafts_from parseDate fp (Suc n) rest
      | _ \<Rightarrow> drafts_from parseDate fp (Suc n) rest)"

fun parse_errors_from ::
  "(string \<Rightarrow> timestamp option) \<Rightarrow> string \<Rightarrow> nat \<Rightarrow> string list \<Rightarrow> nat" where
  "parse_errors_from parseDate fp n [] = 0"
| "parse_errors_from parseDate fp n (line # rest) =
     (case parseLine parseDate line (Suc n) fp of
        Inl e \<Rightarrow> Suc (parse_errors_from parseDate fp (Suc n) rest)
      | _ \<Rightarrow> parse_errors_from parseDate fp (Suc n) rest)"

definition blank :: "string \<Rightarrow> bool" where
  "blank line = (trim line = [])"

function chunks :: "nat \<Rightarrow> 'a list \<Rightarrow> 'a list list" where
  "chunks n xs = (if n = 0 \<or> xs = [] then [] else take n xs # chunks n (drop n xs))"
  by pat_completeness auto
termination
  by (relation "measure (\<lambda>(n, xs). length xs)") auto

declare chunks.simps [simp del]

fun commit_batches ::
  "('st \<Rightarrow> event_data list \<Rightarrow> bool \<times> 'st) \<Rightarrow> 'st \<Rightarrow> event_data list list \<Rightarrow> 'st \<times> nat \<times> nat" where
  "commit_batches txn st [] = (st, 0, 0)"
| "commit_batches txn st (b # bs) =
     (case txn st b of
        (ok, st') \<Rightarrow>
          (case commit_batches txn st' bs of
             (st'', committed, failed) \<Rightarrow>
               if ok then (st'', committed + length b, failed)
               else (st'', committed, failed + length b)))"

text \<open>
  What the accounting gives for a state of the loop whose remaining lines parse to the
  drafts \<open>ds\<close>: the Event Store, the processed counter and the error counter at the end.
\<close>

definition account ::
  "('st \<Rightarrow> event_data list \<Rightarrow> bool \<times> 'st) \<Rightarrow> 'st loop_state \<Rightarrow> event_data list \<Rightarrow> 'st \<times> int \<times> int" where
  "account txn s ds =
     (case commit_batches txn (store s) (chunks batchSize (eventBatch s @ ds)) of
        (st, committed, failed) \<Rightarrow>
          (st, processedLines s - int (length (eventBatch s)) + int committed,
           errorLines s + int failed))"

subsection \<open>The run of a job, as the database records it\<close>

text \<open>
  Predicates of the proofs, not code. A list of recorded statements is \<open>chained\<close> from
  one table to another when each statement found the table its predecessor left. A job
  is \<open>processing\<close> in a table when it is there in state PROCESSING; \<open>others\<close> are the
  rows of the other jobs. \<open>steps jobId db db'\<close>: the database went from \<open>db\<close> to \<open>db'\<close>
  by statements that were each sent while the job was PROCESSING and that left the rows
  of the other jobs alone.
\<close>

fun chained :: "ledger \<Rightarrow> ledger_entry list \<Rightarrow> ledger \<Rightarrow> bool" where
  "chained t [] t' = (t' = t)"
| "chained t (e # es) t' = (table_before e = t \<and> chained (table_after e) es t')"

definition processing :: "string \<Rightarrow> ledger \<Rightarrow> bool" where
  "processing jobId t = (case findById t jobId of Some j \<Rightarrow> status j = PROCESSING | None \<Rightarrow> False)"

definition others :: "string \<Rightarrow> ledger \<Rightarrow> ledger" where
  "others jobId t = filter (\<lambda>j. job_id j \<noteq> jobId) t"

definition driven :: "string \<Rightarrow> ledger_entry \<Rightarrow> bool" where
  "driven jobId e =
     (processing jobId (table_before e) \<and>
      others jobId (table_after e) = others jobId (table_before e))"

definition steps :: "string \<Rightarrow> ledger_db \<Rightarrow> ledger_db \<Rightarrow> bool" where
  "steps jobId db db' =
     (\<exists>new. history db' = history db @ new \<and> chained (table db) new (table db') \<and>
            list_all (driven jobId) new)"

text \<open>
  The state at which the line loop stopped, whether it ran to the end of the lines or
  was left by an exception.
\<close>

definition reached :: "string \<times> 'st loop_state + 'st loop_state \<Rightarrow> 'st loop_state" where
  "reached r = (case r of Inl (e, s) \<Rightarrow> s | Inr s \<Rightarrow> s)"

text \<open>
  The invariant of the loop on the job's row: the job is PROCESSING, its \<open>total_lines\<close>
  is \<open>N\<close>, and its two counters together are at most the two local counters together,
  plus \<open>K\<close> (what the row held before the run).
\<close>

definition ledger_ok :: "string \<Rightarrow> int \<Rightarrow> int \<Rightarrow> 'st loop_state \<Rightarrow> bool" where
  "ledger_ok jobId N K s =
     (\<exists>j. findById (table (jobs s)) jobId = Some j \<and> status j = PROCESSING \<and>
          total_lines j = N \<and>
          processed_lines j + error_lines j \<le> K + (processedLines s + errorLines s))"

text \<open>Reading a decimal numeral back, to tell identifiers apart.\<close>

definition digit_value :: "char \<Rightarrow> nat" where
  "digit_value c = of_char c - 48"

definition nat_of_digits :: "string \<Rightarrow> nat" where
  "nat_of_digits s = foldl (\<lambda>n c. 10 * n + digit_value c) 0 s"

text \<open>
  A line that parses to a draft. Whether it does depends on the line and on
  \<open>parseDate\<close> only, not on the line number or the file path.
\<close>

definition is_valid :: "(string \<Rightarrow> timestamp option) \<Rightarrow> string \<Rightarrow> bool" where
  "is_valid parseDate line =
     (case parseLine parseDate line 0 [] of Inr (Some d) \<Rightarrow> True | _ \<Rightarrow> False)"

section \<open>Example data\<close>

text \<open>
  Concrete inputs on which the theorems below are instantiated: a well-formed line with
  the two dates it needs, a job as \<open>startIngestion\<close> creates it, files given by their
  lines, a file system, database servers and Event Stores that log the size of every batch offered to them.
\<close>

definition example_line :: string where
  "example_line =
     ''a1b2c3d4-e5f6-4890-8234-567890abcdef|Founding of ArchaeoData|2023-01-01T10:00:00Z|2023-01-01T11:30:00Z|NULL|Initial establishment of the company.''"

definition example_parseDate :: "string \<Rightarrow> timestamp option" where
  "example_parseDate s =
     (if s = ''2023-01-01T10:00:00Z'' then Some 1672567200000
      else if s = ''2023-01-01T11:30:00Z'' then Some 1672572600000
      else None)"

definition example_job :: ingestion_job where
  "example_job =
     \<lparr> job_id = ''ingest-job-1-9f8e7d6c'', status = PROCESSING, file_path = ''events.txt'',
       total_lines = 0, processed_lines = 0, error_lines = 0, errors = [],
       start_time = 1, end_time = None \<rparr>"

definition example_db :: ledger_db where
  "example_db = \<lparr> table = [example_job], history = [] \<rparr>"

definition empty_db :: ledger_db where
  "empty_db = \<lparr> table = [], history = [] \<rparr>"

definition no_faults :: pg_server where
  "no_faults n t q = None"

text \<open>A server that cannot store U+0000 in the text of an error.\<close>

definition rejects_nul :: pg_server where
  "rejects_nul n t q =
     (case q of
        AppendError jobId errorMessage \<Rightarrow>
          if CHR 0x00 \<in> set errorMessage
          then Some ''unsupported Unicode escape sequence'' else None
      | _ \<Rightarrow> None)"

definition example_stream :: "string list \<Rightarrow> pass \<Rightarrow> string \<Rightarrow> read_stream" where
  "example_stream ls pass p = \<lparr> delivered = ls, failure = None \<rparr>"

definition three_lines :: "string list" where
  "three_lines = [example_line, ''   '', ''not-a-uuid|x|y|z|NULL|d'']"

text \<open>A file that grows between the count and the processing.\<close>

definition growing_stream :: "pass \<Rightarrow> string \<Rightarrow> read_stream" where
  "growing_stream pass p =
     \<lparr> delivered = (if pass = CountPass then [example_line] else [example_line, example_line]),
       failure = None \<rparr>"

text \<open>A file whose second reading fails after the first line.\<close>

definition failing_stream :: "pass \<Rightarrow> string \<Rightarrow> read_stream" where
  "failing_stream pass p =
     \<lparr> delivered = [example_line],
       failure = (if pass = CountPass then None else Some ''EIO: i/o error, read'') \<rparr>"

definition example_fs :: "string \<Rightarrow> fs_entry" where
  "example_fs p =
     (if p = ''events.txt'' then RegularFile True
      else if p = ''locked.txt'' then RegularFile False
      else if p = ''uploads'' then Directory
      else NoEntry ''ENOENT: no such file or directory'')"

definition second_fails :: "nat list \<Rightarrow> event_data list \<Rightarrow> bool \<times> nat list" where
  "second_fails log b = (length log \<noteq> 1, log @ [length b])"

definition always_commits :: "nat list \<Rightarrow> event_data list \<Rightarrow> bool \<times> nat list" where
  "always_commits log b = (True, log @ [length b])"

section \<open>Event Store rows and Interval Analytics: \<open>HistoricalEvent\<close>\<close>

text \<open>
  A row of \<open>historical_events\<close>: the inserted columns and the generated column
  \<open>duration_minutes\<close>. The primary key \<open>event_id\<close> is a UUID; the database compares
  UUIDs bytewise, which on their canonical text is the lexicographic order of strings.
\<close>

record event_row = event_data +
  duration_minutes :: int

text \<open>
  \<open>Math.round\<close> of a duration in minutes that the query computed from a difference of
  timestamps, here in milliseconds: the nearest whole minute, halves upwards.
\<close>

definition round_minutes :: "int \<Rightarrow> int" where
  "round_minutes ms = (ms + 30000) div 60000"

subsection \<open>findOverlappingEvents\<close>

definition overlap :: "event_row \<Rightarrow> event_row \<Rightarrow> int" where
  "overlap e1 e2 = min (end_date e1) (end_date e2) - max (start_date e1) (start_date e2)"

text \<open>
  The rows of the self-join, with the overlap of each, in the order of
  \<open>ORDER BY overlap_duration_minutes DESC\<close> (a stable sort: SQL leaves the order of
  equal rows open).
\<close>

definition overlap_rows :: "event_row list \<Rightarrow> (event_row \<times> event_row \<times> int) list" where
  "overlap_rows rows =
     sort_key (\<lambda>(e1, e2, d). - d)
       (concat (map (\<lambda>e1.
          map (\<lambda>e2. (e1, e2, overlap e1 e2))
            (filter (\<lambda>e2. event_id e1 < event_id e2 \<and>
                          start_date e1 < end_date e2 \<and> start_date e2 < end_date e1 \<and>
                          overlap e1 e2 > 0) rows)) rows))"

record event_ref =
  ref_event_id :: string
  ref_event_name :: string
  ref_start_date :: timestamp
  ref_end_date :: timestamp

definition event_ref_of :: "event_row \<Rightarrow> event_ref" where
  "event_ref_of e =
     \<lparr> ref_event_id = event_id e, ref_event_name = event_name e,
       ref_start_date = start_date e, ref_end_date = end_date e \<rparr>"

record overlap_result =
  overlappingEventPairs :: "event_ref \<times> event_ref"
  overlap_duration_minutes :: int

definition findOverlappingEvents :: "event_row list \<Rightarrow> overlap_result list" where
  "findOverlappingEvents rows =
     map (\<lambda>(e1, e2, d).
            \<lparr> overlappingEventPairs = (event_ref_of e1, event_ref_of e2),
              overlap_duration_minutes = round_minutes d \<rparr>)
         (overlap_rows rows)"

subsection \<open>findTemporalGaps\<close>

text \<open>
  The common table expression \<open>ordered_events\<close>, then \<open>gaps\<close>: every row but the first
  paired with the row before it (\<open>LAG\<close>), then the rows with a positive gap, largest
  first, and \<open>LIMIT 1\<close>.
\<close>

definition ordered_events :: "timestamp \<Rightarrow> timestamp \<Rightarrow> event_row list \<Rightarrow> event_row list" where
  "ordered_events startDate endDate rows =
     sort_key start_date (filter (\<lambda>e. start_date e \<ge> startDate \<and> end_date e \<le> endDate) rows)"

definition gaps :: "event_row list \<Rightarrow> (event_row \<times> event_row \<times> int) list" where
  "gaps ordered =
     map (\<lambda>(preceding, succeeding).
            (preceding, succeeding, start_date succeeding - end_date preceding))
         (zip ordered (tl ordered))"

definition gap_rows :: "timestamp \<Rightarrow> timestamp \<Rightarrow> event_row list \<Rightarrow> (event_row \<times> event_row \<times> int) list" where
  "gap_rows startDate endDate rows =
     sort_key (\<lambda>(p, s, d). - d)
       (filter (\<lambda>(p, s, d). d > 0) (gaps (ordered_events startDate endDate rows)))"

record gap_event =
  gap_event_id :: string
  gap_event_name :: string
  gap_event_date :: timestamp

record largest_gap =
  startOfGap :: timestamp
  endOfGap :: timestamp
  durationMinutes :: int
  precedingEvent :: gap_event
  succeedingEvent :: gap_event

record gap_result =
  largestGap :: "largest_gap option"
  gap_message :: string

definition findTemporalGaps :: "timestamp \<Rightarrow> timestamp \<Rightarrow> event_row list \<Rightarrow> gap_result" where
  "findTemporalGaps startDate endDate rows =
     (case gap_rows startDate endDate rows of
        [] \<Rightarrow>
          \<lparr> largestGap = None,
            gap_message = ''No significant temporal gaps found within the specified range, or too few events.'' \<rparr>
      | (p, s, d) # rest \<Rightarrow>
          \<lparr> largestGap = Some
              \<lparr> startOfGap = end_date p,
                endOfGap = start_date s,
                durationMinutes = round_minutes d,
                precedingEvent =
                  \<lparr> gap_event_id = event_id p, gap_event_name = event_name p,
                    gap_event_date = end_date p \<rparr>,
                succeedingEvent =
                  \<lparr> gap_event_id = event_id s, gap_event_name = event_name s,
                    gap_event_date = start_date s \<rparr> \<rparr>,
            gap_message = ''Largest temporal gap identified.'' \<rparr>)"

subsection \<open>Example rows for the interval analytics\<close>

text \<open>
  Two events that overlap for 20 seconds, and the events of the gap scenario: a session
  from 10:00 to 11:00 and a review either from 10:30 to 11:15 or from 11:30 to 12:15.
\<close>

definition short_A :: event_row where
  "short_A =
     \<lparr> event_id = ''0a1b2c3d-0000-4000-8000-000000000001'',
       event_name = ''Sensor sweep'', description = None,
       start_date = 1672567200000, end_date = 1672567250000, parent_event_id = None,
       metadata = \<lparr> source_file = ''sample_data.txt'', line_number = 1, parsing_flags = [] \<rparr>,
       duration_minutes = 1 \<rparr>"

definition short_B :: event_row where
  "short_B =
     \<lparr> event_id = ''0a1b2c3d-0000-4000-8000-000000000002'',
       event_name = ''Calibration'', description = None,
       start_date = 1672567230000, end_date = 1672567290000, parent_event_id = None,
       metadata = \<lparr> source_file = ''sample_data.txt'', line_number = 2, parsing_flags = [] \<rparr>,
       duration_minutes = 1 \<rparr>"

definition gap_E1 :: event_row where
  "gap_E1 =
     \<lparr> event_id = ''0a1b2c3d-0000-4000-8000-00000000000a'',
       event_name = ''Morning session'', description = None,
       start_date = 1672567200000, end_date = 1672570800000, parent_event_id = None,
       metadata = \<lparr> source_file = ''sample_data.txt'', line_number = 1, parsing_flags = [] \<rparr>,
       duration_minutes = 60 \<rparr>"

definition gap_E2 :: event_row where
  "gap_E2 =
     \<lparr> event_id = ''0a1b2c3d-0000-4000-8000-00000000000b'',
       event_name = ''Review'', description = None,
       start_date = 1672569000000, end_date = 1672571700000, parent_event_id = None,
       metadata = \<lparr> source_file = ''sample_data.txt'', line_number = 2, parsing_flags = [] \<rparr>,
       duration_minutes = 45 \<rparr>"

definition gap_E2_late :: event_row where
  "gap_E2_late =
     \<lparr> event_id = ''0a1b2c3d-0000-4000-8000-00000000000b'',
       event_name = ''Review'', description = None,
       start_date = 1672572600000, end_date = 1672575300000, parent_event_id = None,
       metadata = \<lparr> source_file = ''sample_data.txt'', line_number = 2, parsing_flags = [] \<rparr>,
       duration_minutes = 45 \<rparr>"

section \<open>Shortest-Path Engine: \<open>HistoricalEvent.findShortestPath\<close>\<close>

text \<open>
  A JavaScript \<open>Map\<close> keyed by event id is an association list in insertion order:
  \<open>get\<close> is \<open>map_of\<close>, \<open>set\<close> is \<open>AList.update\<close> (it overwrites in place or appends).
  A distance is a number or \<open>Infinity\<close>.
\<close>

datatype distance = Finite int | Infinity

datatype js_error = TypeError

type_synonym graph = "(string \<times> string list) list"
type_synonym details = "(string \<times> event_row) list"

definition add_event :: "graph \<Rightarrow> event_row \<Rightarrow> graph" where
  "add_event g event =
     (let g1 = (if map_of g (event_id event) = None then AList.update (event_id event) [] g else g)
      in case parent_event_id event of
           None \<Rightarrow> g1
         | Some parent \<Rightarrow>
             (let g2 = (if map_of g1 parent = None then AList.update parent [] g1 else g1)
              in case map_of g2 parent of
                   None \<Rightarrow> g2
                 | Some children \<Rightarrow> AList.update parent (children @ [event_id event]) g2))"

definition build_graph :: "event_row list \<Rightarrow> graph" where
  "build_graph rows = foldl add_event [] rows"

definition build_details :: "event_row list \<Rightarrow> details" where
  "build_details rows = foldl (\<lambda>m event. AList.update (event_id event) event m) [] rows"

definition initial_distances :: "event_row list \<Rightarrow> string \<Rightarrow> (string \<times> distance) list" where
  "initial_distances rows sourceEventId =
     AList.update sourceEventId (Finite 0)
       (foldl (\<lambda>m event. AList.update (event_id event) Infinity m) [] rows)"

record dijkstra_state =
  distances :: "(string \<times> distance) list"
  previous :: "(string \<times> string) list"
  visited :: "string set"
  queue :: "(string \<times> int) list"

text \<open>
  \<open>newDistance < distances.get(neighborId)\<close>: false when the neighbour has no entry
  (the comparison with \<open>undefined\<close>).
\<close>

fun dist_less :: "int \<Rightarrow> distance option \<Rightarrow> bool" where
  "dist_less d None = False"
| "dist_less d (Some Infinity) = True"
| "dist_less d (Some (Finite x)) = (d < x)"

text \<open>
  The inner \<open>for\<close> loop over the neighbours of the current node. Reading
  \<open>duration_minutes\<close> of a neighbour that \<open>eventDetails\<close> does not have throws. When the
  current node's own distance is not a finite number, \<open>newDistance\<close> is not either and
  the comparison fails.
\<close>

fun relax ::
  "details \<Rightarrow> string \<Rightarrow> string set \<Rightarrow> string list
     \<Rightarrow> (string \<times> distance) list \<times> (string \<times> string) list \<times> (string \<times> int) list
     \<Rightarrow> js_error + (string \<times> distance) list \<times> (string \<times> string) list \<times> (string \<times> int) list" where
  "relax det cur vis [] acc = Inr acc"
| "relax det cur vis (neighborId # rest) (dist, prev, q) =
     (if neighborId \<in> vis then relax det cur vis rest (dist, prev, q)
      else
        case map_of det neighborId of
          None \<Rightarrow> Inl TypeError
        | Some neighborEvent \<Rightarrow>
            (case map_of dist cur of
               Some (Finite d) \<Rightarrow>
                 (let newDistance = d + duration_minutes neighborEvent in
                  if dist_less newDistance (map_of dist neighborId)
                  then relax det cur vis rest
                         (AList.update neighborId (Finite newDistance) dist,
                          AList.update neighborId cur prev,
                          q @ [(neighborId, newDistance)])
                  else relax det cur vis rest (dist, prev, q))
             | _ \<Rightarrow> relax det cur vis rest (dist, prev, q)))"

definition neighbors :: "graph \<Rightarrow> string \<Rightarrow> string list" where
  "neighbors g eventId = (case map_of g eventId of None \<Rightarrow> [] | Some ns \<Rightarrow> ns)"

definition graph_targets :: "graph \<Rightarrow> string set" where
  "graph_targets g = \<Union> (set (map (set \<circ> snd) g))"

lemma neighbors_targets: "set (neighbors g k) \<subseteq> graph_targets g"
proof (cases "map_of g k")
  case None
  then show ?thesis by (simp add: neighbors_def)
next
  case (Some ns)
  then have "(k, ns) \<in> set g" by (rule map_of_SomeD)
  then have "set ns \<subseteq> graph_targets g"
    by (force simp: graph_targets_def)
  with Some show ?thesis by (simp add: neighbors_def)
qed

lemma relax_queue:
  "relax det cur vis ns (dist, prev, q) = Inr (dist', prev', q') \<Longrightarrow>
     fst ` set q' \<subseteq> fst ` set q \<union> set ns"
proof (induction ns arbitrary: dist prev q)
  case Nil
  then show ?case by simp
next
  case (Cons n ns)
  show ?case
  proof (cases "n \<in> vis")
    case True
    with Cons.prems have "relax det cur vis ns (dist, prev, q) = Inr (dist', prev', q')" by simp
    from Cons.IH [OF this] show ?thesis by auto
  next
    case False
    note nv = this
    show ?thesis
    proof (cases "map_of det n")
      case None
      with nv Cons.prems show ?thesis by simp
    next
      case (Some ev)
      let ?upd = "\<exists>d. map_of dist cur = Some (Finite d) \<and>
                      dist_less (d + duration_minutes ev) (map_of dist n)"
      show ?thesis
      proof (cases ?upd)
        case True
        then obtain d where d: "map_of dist cur = Some (Finite d)"
          and l: "dist_less (d + duration_minutes ev) (map_of dist n)" by blast
        with nv Some Cons.prems
        have "relax det cur vis ns
                (AList.update n (Finite (d + duration_minutes ev)) dist,
                 AList.update n cur prev, q @ [(n, d + duration_minutes ev)])
              = Inr (dist', prev', q')"
          by (simp add: Let_def)
        from Cons.IH [OF this] show ?thesis by auto
      next
        case False
        with nv Some Cons.prems
        have "relax det cur vis ns (dist, prev, q) = Inr (dist', prev', q')"
          by (auto simp: Let_def split: option.splits distance.splits if_splits)
        from Cons.IH [OF this] show ?thesis by auto
      qed
    qed
  qed
qed

text \<open>
  The \<open>while (queue.length > 0)\<close> loop: sort the queue by distance (the sort is stable),
  take its head, skip it when visited, stop at the target, else relax its neighbours.
\<close>

function dijkstra_loop ::
  "graph \<Rightarrow> details \<Rightarrow> string \<Rightarrow> dijkstra_state \<Rightarrow> js_error + dijkstra_state" where
  "dijkstra_loop g det targetEventId s =
     (case sort_key snd (queue s) of
        [] \<Rightarrow> Inr s
      | current # rest \<Rightarrow>
          if fst current \<in> visited s
          then dijkstra_loop g det targetEventId (s\<lparr>queue := rest\<rparr>)
          else if fst current = targetEventId
          then Inr (s\<lparr>queue := rest, visited := insert (fst current) (visited s)\<rparr>)
          else
            case relax det (fst current) (insert (fst current) (visited s))
                   (neighbors g (fst current)) (distances s, previous s, rest) of
              Inl e \<Rightarrow> Inl e
            | Inr (dist, prev, q) \<Rightarrow>
                dijkstra_loop g det targetEventId
                  \<lparr> distances = dist, previous = prev,
                    visited = insert (fst current) (visited s), queue = q \<rparr>)"
  by pat_completeness auto

text \<open>The nodes the loop may still visit: the measure of its termination.\<close>

definition pending :: "graph \<Rightarrow> dijkstra_state \<Rightarrow> string set" where
  "pending g s = (graph_targets g \<union> fst ` set (queue s)) - visited s"

lemma finite_pending: "finite (pending g s)"
  by (auto simp: pending_def graph_targets_def)

termination dijkstra_loop
proof (relation "inv_image (less_than <*lex*> less_than)
          (\<lambda>(g, det, t, s). (card (pending g s), length (queue s)))", goal_cases)
  case 1
  show ?case by (intro wf_inv_image wf_lex_prod wf_less_than)
next
  case (2 g det t s current rest)
  have eq: "set (queue s) = insert current (set rest)"
    using 2(1) by (metis list.simps(15) set_sort)
  have len: "length (queue s) = Suc (length rest)"
    using 2(1) by (metis length_Cons length_sort)
  have "pending g (s\<lparr>queue := rest\<rparr>) \<subseteq> pending g s"
    using eq by (auto simp: pending_def)
  then have "card (pending g (s\<lparr>queue := rest\<rparr>)) \<le> card (pending g s)"
    by (intro card_mono finite_pending)
  with len show ?case by auto
next
  case (3 g det t s current rest x dist y prev q)
  let ?s' = "\<lparr> distances = dist, previous = prev,
                visited = insert (fst current) (visited s), queue = q \<rparr>"
  have eq: "set (queue s) = insert current (set rest)"
    using 3(1) by (metis list.simps(15) set_sort)
  from 3 have r: "relax det (fst current) (insert (fst current) (visited s))
                   (neighbors g (fst current)) (distances s, previous s, rest)
                 = Inr (dist, prev, q)" by simp
  from relax_queue [OF r] neighbors_targets [of g "fst current"]
  have "fst ` set q \<subseteq> fst ` set rest \<union> graph_targets g" by blast
  with eq have sub: "pending g ?s' \<subseteq> pending g s - {fst current}"
    by (auto simp: pending_def)
  have "fst current \<in> pending g s"
    using 3(2) eq by (auto simp: pending_def)
  with sub have "pending g ?s' \<subset> pending g s" by blast
  then have "card (pending g ?s') < card (pending g s)"
    by (intro psubset_card_mono finite_pending)
  then show ?case by simp
qed

declare dijkstra_loop.simps [simp del]

text \<open>
  The reconstruction of the path: \<open>while (currentEventId !== undefined)\<close> walks
  \<open>previous\<close> back from the target. The loop need not end on an arbitrary
  \<open>previous\<close> map, so its result is an option, \<open>None\<close> when it runs forever. Reading
  the fields of an event that \<open>eventDetails\<close> does not have throws.
\<close>

record path_entry =
  entry_event_id :: string
  entry_event_name :: string
  entry_duration_minutes :: int

definition path_entry_of :: "event_row \<Rightarrow> path_entry" where
  "path_entry_of event =
     \<lparr> entry_event_id = event_id event, entry_event_name = event_name event,
       entry_duration_minutes = duration_minutes event \<rparr>"

partial_function (option) reconstruct ::
  "details \<Rightarrow> (string \<times> string) list \<Rightarrow> string \<Rightarrow> path_entry list
     \<Rightarrow> (js_error + path_entry list) option" where
  "reconstruct det prev currentEventId path =
     (case map_of det currentEventId of
        None \<Rightarrow> Some (Inl TypeError)
      | Some event \<Rightarrow>
          (case map_of prev currentEventId of
             None \<Rightarrow> Some (Inr (path_entry_of event # path))
           | Some prior \<Rightarrow> reconstruct det prev prior (path_entry_of event # path)))"

declare reconstruct.simps [code]

record path_result =
  sourceEventId :: string
  targetEventId :: string
  shortestPath :: "path_entry list"
  totalDurationMinutes :: int
  message :: string

definition findShortestPath ::
  "event_row list \<Rightarrow> string \<Rightarrow> string \<Rightarrow> (js_error + path_result) option" where
  "findShortestPath rows source target =
     (let g = build_graph rows;
          det = build_details rows;
          s0 = \<lparr> distances = initial_distances rows source, previous = [],
                 visited = {}, queue = [(source, 0)] \<rparr>
      in case dijkstra_loop g det target s0 of
           Inl e \<Rightarrow> Some (Inl e)
         | Inr s \<Rightarrow>
             if map_of (previous s) target = None \<and> source \<noteq> target
             then Some (Inr \<lparr> sourceEventId = source, targetEventId = target,
                               shortestPath = [], totalDurationMinutes = 0,
                               message = ''No temporal path found from source to target event.'' \<rparr>)
             else
               (case reconstruct det (previous s) target [] of
                  None \<Rightarrow> None
                | Some (Inl e) \<Rightarrow> Some (Inl e)
                | Some (Inr path) \<Rightarrow>
                    Some (Inr \<lparr> sourceEventId = source, targetEventId = target,
                                 shortestPath = path,
                                 totalDurationMinutes = sum_list (map entry_duration_minutes path),
                                 message = ''Shortest temporal path found from source to target event.'' \<rparr>)))"

subsection \<open>The route \<open>GET /api/insights/event-influence\<close>\<close>

text \<open>
  The boundary in front of \<open>findShortestPath\<close>. The schema check of the two identifiers
  (the validation library's) is the parameter \<open>validate\<close>, \<open>None\<close> when it passes and
  the message otherwise.
\<close>

datatype route_response =
    ValidationError string
  | Json path_result
  | InternalServerError js_error

definition event_influence_route ::
  "(string \<Rightarrow> string \<Rightarrow> string option) \<Rightarrow> event_row list \<Rightarrow> string \<Rightarrow> string
     \<Rightarrow> route_response option" where
  "event_influence_route validate rows source target =
     (case validate source target of
        Some msg \<Rightarrow> Some (ValidationError msg)
      | None \<Rightarrow>
          if source = target
          then Some (ValidationError ''Source and target event IDs cannot be the same'')
          else
            (case findShortestPath rows source target of
               None \<Rightarrow> None
             | Some (Inl e) \<Rightarrow> Some (InternalServerError e)
             | Some (Inr influence) \<Rightarrow> Some (Json influence)))"

subsection \<open>Example rows: a chain of three events\<close>

definition chain_A :: event_row where
  "chain_A =
     \<lparr> event_id = ''a1b2c3d4-e5f6-4890-8234-567890abcdef'',
       event_name = ''Founding of ArchaeoData'', description = None,
       start_date = 1672567200000, end_date = 1672572600000, parent_event_id = None,
       metadata = \<lparr> source_file = ''sample_data.txt'', line_number = 1, parsing_flags = [] \<rparr>,
       duration_minutes = 90 \<rparr>"

definition chain_B :: event_row where
  "chain_B =
     \<lparr> event_id = ''f7e6d5c4-b3a2-4098-8654-3210fedcba98'',
       event_name = ''Phase 1 Research'', description = None,
       start_date = 1672569000000, end_date = 1672569600000,
       parent_event_id = Some ''a1b2c3d4-e5f6-4890-8234-567890abcdef'',
       metadata = \<lparr> source_file = ''sample_data.txt'', line_number = 2, parsing_flags = [] \<rparr>,
       duration_minutes = 10 \<rparr>"

definition chain_C :: event_row where
  "chain_C =
     \<lparr> event_id = ''11223344-5566-4788-9900-aabbccddeeff'',
       event_name = ''Internal Review Meeting'', description = None,
       start_date = 1672569900000, end_date = 1672571100000,
       parent_event_id = Some ''f7e6d5c4-b3a2-4098-8654-3210fedcba98'',
       metadata = \<lparr> source_file = ''sample_data.txt'', line_number = 3, parsing_flags = [] \<rparr>,
       duration_minutes = 20 \<rparr>"

section \<open>Properties of the line parser\<close>

lemma trim_Nil [simp]: "trim [] = []"
  by (simp add: trim_def)

lemma split_on_no_sep: "sep \<notin> set s \<Longrightarrow> split_on sep s = [s]"
  by (induction s) auto

lemma trim_empty_all_ws: "trim s = [] \<Longrightarrow> \<forall>c \<in> set s. js_whitespace c"
proof -
  assume "trim s = []"
  then have "dropWhile js_whitespace (rev (dropWhile js_whitespace s)) = []"
    by (simp add: trim_def)
  then have "\<forall>c \<in> set (rev (dropWhile js_whitespace s)). js_whitespace c"
    by simp
  then have a: "\<forall>c \<in> set (dropWhile js_whitespace s). js_whitespace c"
    by simp
  show ?thesis
  proof
    fix c assume c: "c \<in> set s"
    have "set s = set (takeWhile js_whitespace s) \<union> set (dropWhile js_whitespace s)"
      by (metis set_append takeWhile_dropWhile_id)
    with c a show "js_whitespace c"
      by (auto dest: set_takeWhileD)
  qed
qed

lemma blank_line_one_field: "trim s = [] \<Longrightarrow> split_on CHR ''|'' s = [s]"
proof -
  assume "trim s = []"
  then have "\<forall>c \<in> set s. js_whitespace c" by (rule trim_empty_all_ws)
  moreover have "\<not> js_whitespace CHR ''|''" by (simp add: js_whitespace_def)
  ultimately have "CHR ''|'' \<notin> set s" by blast
  then show ?thesis by (rule split_on_no_sep)
qed

text \<open>
  C4, as stated: every line whose field count is not 6 fails with MalformedEntry.
  The empty line has one field and is skipped (\<open>null\<close>) with no error at all.
\<close>

theorem C4_blank_line_counterexample:
  "\<not> (\<forall>line. length (split_on CHR ''|'' line) \<noteq> 6 \<longrightarrow>
        (\<exists>n. parseLine (\<lambda>s. None) line 1 ''events.txt'' = Inl (MalformedEntry n)))"
proof
  assume a: "\<forall>line. length (split_on CHR ''|'' line) \<noteq> 6 \<longrightarrow>
        (\<exists>n. parseLine (\<lambda>s. None) line 1 ''events.txt'' = Inl (MalformedEntry n))"
  have "length (split_on CHR ''|'' []) \<noteq> 6" by simp
  with a obtain n where "parseLine (\<lambda>s. None) [] 1 ''events.txt'' = Inl (MalformedEntry n)"
    by blast
  then show False by (simp add: parseLine_def)
qed

text \<open>
  C4, amended: for every line whose pipe-split field count is not 6, \<open>parseLine\<close> skips the
  line without error when it is blank (only white space) and otherwise fails with
  MalformedEntry carrying the actual field count (the expected count 6 is fixed in the
  message); so no UUID, date or date-order error is ever raised for such a line. Every
  blank line is such a line: it has exactly one field.
\<close>

theorem C4_malformed_entry:
  assumes "length (split_on CHR ''|'' line) \<noteq> 6"
  shows "parseLine parseDate line n fp =
           (if trim line = [] then Inr None
            else Inl (MalformedEntry (length (split_on CHR ''|'' line)))) \<and>
         error_message (MalformedEntry (length (split_on CHR ''|'' line))) =
           ''Malformed entry: expected 6 fields, got '' @ digits (length (split_on CHR ''|'' line)) \<and>
         (trim line = [] \<longrightarrow> length (split_on CHR ''|'' line) = 1)"
  using assms by (simp add: parseLine_def Let_def blank_line_one_field)

text \<open>C4 on a line of three fields.\<close>

theorem C4_malformed_entry_witness:
  "length (split_on CHR ''|'' ''a|b|c'') \<noteq> 6 \<and>
   parseLine (\<lambda>s. None) ''a|b|c'' 7 ''events.txt'' = Inl (MalformedEntry 3) \<and>
   error_message (MalformedEntry 3) = ''Malformed entry: expected 6 fields, got 3''"
proof -
  have h: "length (split_on CHR ''|'' ''a|b|c'') \<noteq> 6" by simp
  have t: "trim ''a|b|c'' \<noteq> []" by (simp add: trim_def js_whitespace_def)
  have l: "length (split_on CHR ''|'' ''a|b|c'') = 3" by simp
  have d: "digits 3 = ''3''" by (simp add: digit_char_def)
  from C4_malformed_entry [OF h, of "\<lambda>s. None" 7 "''events.txt''"] t l d
  show ?thesis by simp
qed

section \<open>Properties of the ledger and of the ingestion loop\<close>

subsection \<open>Looking a job up after an update\<close>

lemma find_map_id:
  assumes "\<And>j. job_id (f j) = job_id j"
  shows "find (\<lambda>j. job_id j = k) (map f l) = map_option f (find (\<lambda>j. job_id j = k) l)"
  using assms by (induction l) auto

lemma findById_update_where:
  assumes "\<And>j. job_id (f j) = job_id j"
  shows "findById (update_where jobId f l) k =
         map_option (\<lambda>j. if job_id j = jobId then f j else j) (findById l k)"
  unfolding findById_def update_where_def
  by (rule find_map_id) (simp add: assms)

lemma job_id_set_field [simp]: "job_id (set_field j f) = job_id j"
  by (cases f) auto

lemma job_id_foldl_set_field [simp]: "job_id (foldl set_field j fs) = job_id j"
  by (induction fs arbitrary: j) auto

lemma findById_None_iff: "(findById l k = None) = (k \<notin> set (map job_id l))"
  by (auto simp: findById_def find_None_iff)

lemma findById_Some_D: "findById l k = Some j \<Longrightarrow> j \<in> set l \<and> job_id j = k"
  by (auto simp: findById_def find_Some_iff)

lemma findById_append_new:
  "k \<notin> set (map job_id l) \<Longrightarrow> job_id j = k \<Longrightarrow> findById (l @ [j]) k = Some j"
  by (induction l) (auto simp: findById_def)

lemma findById_append_old:
  "findById l k = Some j \<Longrightarrow> findById (l @ l') k = Some j"
  by (induction l) (auto simp: findById_def)

lemma others_update_where:
  assumes "\<And>j. job_id (f j) = job_id j"
  shows "others jobId (update_where jobId f l) = others jobId l"
  by (induction l) (auto simp: others_def update_where_def assms)

lemma others_effect:
  "others jobId (effect (UpdateJob jobId fs) t) = others jobId t"
  "others jobId (effect (AppendError jobId m) t) = others jobId t"
  "others jobId (effect (FailJob jobId m now) t) = others jobId t"
  by (simp_all add: others_update_where)

lemma findById_effect:
  assumes "findById t jobId = Some j"
  shows "findById (effect (UpdateJob jobId fs) t) jobId = Some (foldl set_field j fs)"
    and "findById (effect (AppendError jobId m) t) jobId =
           Some (j\<lparr>errors := errors j @ [m], error_lines := error_lines j + 1\<rparr>)"
    and "findById (effect (FailJob jobId m now) t) jobId =
           Some (j\<lparr>status := FAILED, end_time := Some now, errors := errors j @ [m]\<rparr>)"
  using assms findById_Some_D [OF assms] by (simp_all add: findById_update_where)

subsection \<open>One statement\<close>

lemma query_result:
  assumes "query pg db q = (r, db')"
  shows "r = server_verdict pg db q"
    and "table db' = (case r of None \<Rightarrow> effect q (table db) | Some m \<Rightarrow> table db)"
    and "history db' = history db
           @ [\<lparr> table_before = table db, statement = q, verdict = r, table_after = table db' \<rparr>]"
  using assms by (auto simp: query_def Let_def)

lemma query_no_fault:
  assumes "\<forall>n t q. pg n t q = None" and "key_violation (table db) q = None"
  shows "fst (query pg db q) = None"
  using assms by (simp add: query_def server_verdict_def Let_def)

lemma key_violation_update [simp]:
  "key_violation t (UpdateJob jobId fs) = None"
  "key_violation t (AppendError jobId m) = None"
  "key_violation t (FailJob jobId m now) = None"
  by (simp_all add: key_violation_def)

lemma chained_append:
  "chained t xs t' \<Longrightarrow> chained t' ys t'' \<Longrightarrow> chained t (xs @ ys) t''"
  by (induction xs arbitrary: t) auto

lemma steps_refl [simp]: "steps jobId db db"
  unfolding steps_def by (intro exI [of _ "[]"]) simp

lemma steps_trans:
  assumes "steps jobId db db'" and "steps jobId db' db''"
  shows "steps jobId db db''"
proof -
  from assms(1) obtain xs where xs: "history db' = history db @ xs"
    "chained (table db) xs (table db')" "list_all (driven jobId) xs"
    unfolding steps_def by blast
  from assms(2) obtain ys where ys: "history db'' = history db' @ ys"
    "chained (table db') ys (table db'')" "list_all (driven jobId) ys"
    unfolding steps_def by blast
  from xs ys have "history db'' = history db @ (xs @ ys)"
    "chained (table db) (xs @ ys) (table db'')" "list_all (driven jobId) (xs @ ys)"
    by (simp_all add: chained_append)
  then show ?thesis unfolding steps_def by blast
qed

lemma steps_query:
  assumes p: "processing jobId (table db)" and q: "query pg db q = (r, db')"
    and o: "others jobId (effect q (table db)) = others jobId (table db)"
  shows "steps jobId db db'"
proof -
  let ?e = "\<lparr> table_before = table db, statement = q, verdict = r, table_after = table db' \<rparr>"
  have "others jobId (table db') = others jobId (table db)"
    using query_result(2) [OF q] o by (cases r) simp_all
  with p have "driven jobId ?e" by (simp add: driven_def)
  moreover have "history db' = history db @ [?e]" by (rule query_result(3) [OF q])
  moreover have "chained (table db) [?e] (table db')" by simp
  ultimately show ?thesis unfolding steps_def by (intro exI [of _ "[?e]"]) simp
qed

lemma query_row:
  assumes j: "findById (table db) jobId = Some j"
    and q: "query pg db q = (r, db')"
    and f: "findById (effect q (table db)) jobId = Some j'"
  shows "findById (table db') jobId = Some (if r = None then j' else j)"
  using query_result(2) [OF q] j f by (cases r) simp_all

text \<open>
  What one of the controller's updates does to the job's row: the row is rewritten when
  the server accepts the statement and left as it was when it rejects.
\<close>

lemma update_row:
  assumes j: "findById (table db) jobId = Some j" and st: "status j = PROCESSING"
    and q: "query pg db q = (r, db')"
    and o: "others jobId (effect q (table db)) = others jobId (table db)"
    and f: "findById (effect q (table db)) jobId = Some j'"
  shows "steps jobId db db' \<and>
         findById (table db') jobId = Some (if r = None then j' else j)"
proof -
  from j st have "processing jobId (table db)" by (simp add: processing_def)
  from steps_query [OF this q o] have "steps jobId db db'" .
  moreover have "findById (table db') jobId = Some (if r = None then j' else j)"
    by (rule query_row [OF j q f])
  ultimately show ?thesis by simp
qed

lemma addError_row:
  assumes "findById (table db) jobId = Some j" and "status j = PROCESSING"
    and "addError pg db jobId m = (r, db')"
  shows "steps jobId db db' \<and>
         findById (table db') jobId =
           Some (if r = None then j\<lparr>errors := errors j @ [m], error_lines := error_lines j + 1\<rparr>
                 else j)"
proof -
  from assms(3) have q: "query pg db (AppendError jobId m) = (r, db')"
    by (simp add: addError_def)
  show ?thesis
    using update_row [OF assms(1,2) q others_effect(2) findById_effect(2) [OF assms(1)]] .
qed

lemma updateProgress_row:
  assumes "findById (table db) jobId = Some j" and "status j = PROCESSING"
    and "filter allowedField fs = fs" and "fs \<noteq> []"
    and "updateProgress pg db jobId fs = (r, db')"
  shows "steps jobId db db' \<and>
         findById (table db') jobId = Some (if r = None then foldl set_field j fs else j)"
proof -
  from assms(3,4,5) have q: "query pg db (UpdateJob jobId fs) = (r, db')"
    by (simp add: updateProgress_def Let_def)
  show ?thesis
    using update_row [OF assms(1,2) q others_effect(1) findById_effect(1) [OF assms(1)]] .
qed

lemma fail_row:
  assumes "findById (table db) jobId = Some j" and "status j = PROCESSING"
    and "fail pg now db jobId m = (r, db')"
  shows "steps jobId db db' \<and>
         findById (table db') jobId =
           Some (if r = None
                 then j\<lparr>status := FAILED, end_time := Some now, errors := errors j @ [m]\<rparr>
                 else j)"
proof -
  from assms(3) have q: "query pg db (FailJob jobId m now) = (r, db')"
    by (simp add: fail_def)
  show ?thesis
    using update_row [OF assms(1,2) q others_effect(3) findById_effect(3) [OF assms(1)]] .
qed

subsection \<open>Batches and the counters of the loop\<close>

lemma chunks_Nil [simp]: "chunks n [] = []"
  by (simp add: chunks.simps)

lemma chunks_short: "0 < length xs \<Longrightarrow> length xs \<le> n \<Longrightarrow> chunks n xs = [xs]"
  by (subst chunks.simps) (cases xs; auto)

lemma chunks_full: "0 < n \<Longrightarrow> length b = n \<Longrightarrow> chunks n (b @ xs) = b # chunks n xs"
  by (subst chunks.simps) auto

lemma concat_chunks: "0 < n \<Longrightarrow> concat (chunks n xs) = xs"
proof (induction n xs rule: chunks.induct)
  case (1 n xs)
  then show ?case by (subst chunks.simps) auto
qed

lemma parseLine_None_iff: "(parseLine pd line n fp = Inr None) = blank line"
  by (auto simp: parseLine_def blank_def Let_def split: option.splits)

lemma sum_commit_batches:
  "commit_batches txn st bs = (st', p, e) \<Longrightarrow> p + e = length (concat bs)"
proof (induction bs arbitrary: st st' p e)
  case Nil
  then show ?case by simp
next
  case (Cons b bs)
  obtain ok st1 where t: "txn st b = (ok, st1)" by (cases "txn st b")
  obtain st2 p2 e2 where c: "commit_batches txn st1 bs = (st2, p2, e2)"
    by (cases "commit_batches txn st1 bs")
  from Cons.IH [OF c] have "p2 + e2 = length (concat bs)" .
  with Cons.prems t c show ?case by (auto split: if_splits)
qed

lemma account_final:
  assumes "length (eventBatch s) < batchSize"
  shows "account txn s [] =
           (store (final_batch txn s), processedLines (final_batch txn s),
            errorLines (final_batch txn s))"
proof (cases "eventBatch s = []")
  case True
  then show ?thesis by (simp add: account_def final_batch_def)
next
  case False
  with assms have c: "chunks batchSize (eventBatch s) = [eventBatch s]"
    by (simp add: chunks_short)
  obtain ok st where t: "txn (store s) (eventBatch s) = (ok, st)"
    by (cases "txn (store s) (eventBatch s)")
  with False c show ?thesis
    by (cases ok) (simp_all add: account_def final_batch_def bulkCreate_def)
qed

lemma account_jobs [simp]: "account txn (s\<lparr>jobs := l\<rparr>) ds = account txn s ds"
  by (simp add: account_def)

lemma account_batch_step:
  assumes "length (eventBatch s) \<le> batchSize"
  shows "account txn (batch_step txn s) ds = account txn s ds"
proof (cases "length (eventBatch s) = batchSize")
  case False
  with assms show ?thesis by (simp add: batch_step_def)
next
  case True
  then have ne: "eventBatch s \<noteq> []" by (auto simp: batchSize_def)
  from True have c: "chunks batchSize (eventBatch s @ ds) = eventBatch s # chunks batchSize ds"
    by (simp add: chunks_full batchSize_def)
  obtain ok st where t: "txn (store s) (eventBatch s) = (ok, st)"
    by (cases "txn (store s) (eventBatch s)")
  obtain st' p e where r: "commit_batches txn st (chunks batchSize ds) = (st', p, e)"
    by (cases "commit_batches txn st (chunks batchSize ds)")
  from True ne c t r show ?thesis
    by (cases ok) (simp_all add: account_def batch_step_def bulkCreate_def)
qed

lemma length_batch_step:
  "length (eventBatch (batch_step txn s)) < batchSize"
  by (auto simp: batch_step_def batchSize_def split: prod.splits bool.splits)

lemma lineNumber_batch_step [simp]: "lineNumber (batch_step txn s) = lineNumber s"
  by (auto simp: batch_step_def split: prod.splits bool.splits)

lemma jobs_batch_step [simp]: "jobs (batch_step txn s) = jobs s"
  by (auto simp: batch_step_def split: prod.splits bool.splits)

lemma sum_batch_step [simp]:
  "processedLines (batch_step txn s) + errorLines (batch_step txn s) =
     processedLines s + errorLines s"
  by (auto simp: batch_step_def split: prod.splits bool.splits)

lemma jobs_final_batch [simp]: "jobs (final_batch txn s) = jobs s"
  by (auto simp: final_batch_def split: prod.splits bool.splits)

lemma sum_final_batch [simp]:
  "processedLines (final_batch txn s) + errorLines (final_batch txn s) =
     processedLines s + errorLines s"
  by (auto simp: final_batch_def split: prod.splits bool.splits)

lemma ledger_ok_batch_step [simp]:
  "ledger_ok jobId N K (batch_step txn s) = ledger_ok jobId N K s"
  by (simp add: ledger_ok_def)

lemma parse_step_Inr:
  assumes "parse_step pg pd jobId fp s line = Inr s'"
  shows "lineNumber s' = Suc (lineNumber s)"
    and "length (eventBatch s') \<le> Suc (length (eventBatch s))"
    and "account txn s' ds =
     (case account txn s (drafts_from pd fp (lineNumber s) [line] @ ds) of
        (st, p, e) \<Rightarrow> (st, p, e + int (parse_errors_from pd fp (lineNumber s) [line])))"
  using assms
  by (auto simp: parse_step_def account_def Let_def
      split: sum.splits option.splits prod.splits)

lemma progress_step_local:
  "\<exists>db. reached (progress_step pg jobId s) = s\<lparr>jobs := db\<rparr>"
proof (cases "lineNumber s mod 100 = 0")
  case False
  then have "reached (progress_step pg jobId s) = s\<lparr>jobs := jobs s\<rparr>"
    by (simp add: progress_step_def reached_def)
  then show ?thesis by blast
next
  case True
  obtain r db where "updateProgress pg (jobs s) jobId
      [ProcessedLines (processedLines s), ErrorLines (errorLines s)] = (r, db)"
    by (cases "updateProgress pg (jobs s) jobId
      [ProcessedLines (processedLines s), ErrorLines (errorLines s)]")
  with True have "reached (progress_step pg jobId s) = s\<lparr>jobs := db\<rparr>"
    by (cases r) (simp_all add: progress_step_def reached_def)
  then show ?thesis by blast
qed

lemma reached_Inr [simp]: "reached (Inr s) = s"
  by (simp add: reached_def)

lemma reached_Inl [simp]: "reached (Inl (e, s)) = s"
  by (simp add: reached_def)

lemma drafts_from_Cons:
  "drafts_from pd fp n (line # rest) = drafts_from pd fp n [line] @ drafts_from pd fp (Suc n) rest"
  by (auto split: sum.splits option.splits)

lemma parse_errors_from_Cons:
  "parse_errors_from pd fp n (line # rest) =
     parse_errors_from pd fp n [line] + parse_errors_from pd fp (Suc n) rest"
  by (auto split: sum.splits option.splits)

lemma process_line_account:
  assumes b: "length (eventBatch s) < batchSize"
    and r: "process_line pg pd txn jobId fp s line = Inr s'"
  shows "length (eventBatch s') < batchSize \<and>
         lineNumber s' = Suc (lineNumber s) \<and>
         (\<forall>ds. account txn s' ds =
            (case account txn s (drafts_from pd fp (lineNumber s) [line] @ ds) of
               (st, p, e) \<Rightarrow> (st, p, e + int (parse_errors_from pd fp (lineNumber s) [line]))))"
proof -
  from r obtain s1 where p1: "parse_step pg pd jobId fp s line = Inr s1"
    and p2: "progress_step pg jobId (batch_step txn s1) = Inr s'"
    by (auto simp: process_line_def split: sum.splits)
  let ?s2 = "batch_step txn s1"
  from progress_step_local [of pg jobId ?s2] p2
  obtain db where s': "s' = ?s2\<lparr>jobs := db\<rparr>" by auto
  have le: "length (eventBatch s1) \<le> batchSize"
    using b parse_step_Inr(2) [OF p1] by simp
  have "length (eventBatch s') < batchSize"
    by (simp add: s' length_batch_step)
  moreover have "lineNumber s' = Suc (lineNumber s)"
    by (simp add: s' parse_step_Inr(1) [OF p1])
  moreover have "\<forall>ds. account txn s' ds =
            (case account txn s (drafts_from pd fp (lineNumber s) [line] @ ds) of
               (st, p, e) \<Rightarrow> (st, p, e + int (parse_errors_from pd fp (lineNumber s) [line])))"
    by (simp add: s' account_batch_step [OF le] parse_step_Inr(3) [OF p1])
  ultimately show ?thesis by blast
qed

lemma process_lines_account:
  assumes "length (eventBatch s) < batchSize"
    and "process_lines pg pd txn jobId fp s ls = Inr s'"
  shows "length (eventBatch s') < batchSize \<and>
         lineNumber s' = lineNumber s + length ls \<and>
         account txn s' [] =
            (case account txn s (drafts_from pd fp (lineNumber s) ls) of
               (st, p, e) \<Rightarrow> (st, p, e + int (parse_errors_from pd fp (lineNumber s) ls)))"
  using assms
proof (induction ls arbitrary: s)
  case Nil
  then show ?case by (auto split: prod.splits)
next
  case (Cons line rest)
  from Cons.prems(2) obtain s1 where s1: "process_line pg pd txn jobId fp s line = Inr s1"
    and rest: "process_lines pg pd txn jobId fp s1 rest = Inr s'"
    by (auto split: sum.splits)
  from process_line_account [OF Cons.prems(1) s1]
  have b1: "length (eventBatch s1) < batchSize"
    and n1: "lineNumber s1 = Suc (lineNumber s)"
    and a1: "\<And>ds. account txn s1 ds =
              (case account txn s (drafts_from pd fp (lineNumber s) [line] @ ds) of
                 (st, p, e) \<Rightarrow> (st, p, e + int (parse_errors_from pd fp (lineNumber s) [line])))"
    by blast+
  from Cons.IH [OF b1 rest]
  have b': "length (eventBatch s') < batchSize"
    and n': "lineNumber s' = lineNumber s1 + length rest"
    and a': "account txn s' [] =
              (case account txn s1 (drafts_from pd fp (lineNumber s1) rest) of
                 (st, p, e) \<Rightarrow> (st, p, e + int (parse_errors_from pd fp (lineNumber s1) rest)))"
    by blast+
  have "lineNumber s' = lineNumber s + length (line # rest)"
    using n' n1 by simp
  moreover have "account txn s' [] =
              (case account txn s (drafts_from pd fp (lineNumber s) (line # rest)) of
                 (st, p, e) \<Rightarrow> (st, p, e + int (parse_errors_from pd fp (lineNumber s) (line # rest))))"
    unfolding a' a1 n1
    by (subst drafts_from_Cons, subst parse_errors_from_Cons) (auto split: prod.splits)
  ultimately show ?case using b' by blast
qed

lemma count_nonblank:
  "length (drafts_from pd fp n ls) + parse_errors_from pd fp n ls = length (filter (\<lambda>l. \<not> blank l) ls)"
proof (induction ls arbitrary: n)
  case Nil
  show ?case by simp
next
  case (Cons line rest)
  show ?case
  proof (cases "parseLine pd line (Suc n) fp")
    case (Inl e)
    then have "\<not> blank line" using parseLine_None_iff [of pd line "Suc n" fp] by simp
    with Inl Cons.IH [of "Suc n"] show ?thesis by simp
  next
    case (Inr r)
    show ?thesis
    proof (cases r)
      case None
      with Inr have "blank line" using parseLine_None_iff [of pd line "Suc n" fp] by simp
      with Inr None Cons.IH [of "Suc n"] show ?thesis by simp
    next
      case (Some d)
      with Inr have "\<not> blank line" using parseLine_None_iff [of pd line "Suc n" fp] by simp
      with Inr Some Cons.IH [of "Suc n"] show ?thesis by simp
    qed
  qed
qed

subsection \<open>The job's row during the loop\<close>

text \<open>
  One turn of the loop, however it ends, keeps the job PROCESSING with its total,
  sends its statements while the job is PROCESSING, and adds one to the two local
  counters together exactly when the line is not blank.
\<close>

lemma parse_step_inv:
  assumes ok: "ledger_ok jobId N K s"
  shows "ledger_ok jobId N K (reached (parse_step pg pd jobId fp s line)) \<and>
         steps jobId (jobs s) (jobs (reached (parse_step pg pd jobId fp s line))) \<and>
         processedLines (reached (parse_step pg pd jobId fp s line))
           + errorLines (reached (parse_step pg pd jobId fp s line)) =
             processedLines s + errorLines s + (if blank line then 0 else 1)"
proof (cases "parseLine pd line (Suc (lineNumber s)) fp")
  case (Inr res)
  show ?thesis
  proof (cases res)
    case None
    with Inr have "blank line" using parseLine_None_iff [of pd line "Suc (lineNumber s)" fp] by simp
    with Inr None ok show ?thesis
      by (simp add: parse_step_def Let_def ledger_ok_def)
  next
    case (Some d)
    with Inr have "\<not> blank line"
      using parseLine_None_iff [of pd line "Suc (lineNumber s)" fp] by simp
    with Inr Some ok show ?thesis
      by (auto simp: parse_step_def Let_def ledger_ok_def)
  qed
next
  case (Inl err)
  then have nb: "\<not> blank line"
    using parseLine_None_iff [of pd line "Suc (lineNumber s)" fp] by simp
  let ?s2 = "s\<lparr>lineNumber := Suc (lineNumber s), errorLines := errorLines s + 1\<rparr>"
  let ?m = "''Line '' @ digits (Suc (lineNumber s)) @ '': '' @ error_message err"
  obtain r db where a: "addError pg (jobs s) jobId ?m = (r, db)"
    by (cases "addError pg (jobs s) jobId ?m")
  from ok obtain j where j: "findById (table (jobs s)) jobId = Some j"
    and st: "status j = PROCESSING" and tot: "total_lines j = N"
    and le: "processed_lines j + error_lines j \<le> K + (processedLines s + errorLines s)"
    unfolding ledger_ok_def by blast
  from addError_row [OF j st a]
  have stp: "steps jobId (jobs s) db"
    and row: "findById (table db) jobId =
           Some (if r = None then j\<lparr>errors := errors j @ [?m], error_lines := error_lines j + 1\<rparr>
                 else j)"
    by simp_all
  have ps: "parse_step pg pd jobId fp s line =
     (case addError pg (jobs s) jobId ?m of
        (Some e, db) \<Rightarrow> Inl (e, ?s2\<lparr>jobs := db\<rparr>)
      | (None, db) \<Rightarrow> Inr (?s2\<lparr>jobs := db\<rparr>))"
    using Inl by (simp add: parse_step_def Let_def)
  have re: "reached (parse_step pg pd jobId fp s line) = ?s2\<lparr>jobs := db\<rparr>"
    unfolding ps a by (cases r) simp_all
  have "ledger_ok jobId N K (?s2\<lparr>jobs := db\<rparr>)"
    unfolding ledger_ok_def using row st tot le by (cases r) auto
  with re stp nb show ?thesis by simp
qed

lemma progress_step_inv:
  assumes ok: "ledger_ok jobId N K s" and K: "0 \<le> K"
  shows "ledger_ok jobId N K (reached (progress_step pg jobId s)) \<and>
         steps jobId (jobs s) (jobs (reached (progress_step pg jobId s))) \<and>
         processedLines (reached (progress_step pg jobId s))
           + errorLines (reached (progress_step pg jobId s)) = processedLines s + errorLines s"
proof (cases "lineNumber s mod 100 = 0")
  case False
  with ok show ?thesis by (simp add: progress_step_def)
next
  case True
  let ?fs = "[ProcessedLines (processedLines s), ErrorLines (errorLines s)]"
  obtain r db where u: "updateProgress pg (jobs s) jobId ?fs = (r, db)"
    by (cases "updateProgress pg (jobs s) jobId ?fs")
  from ok obtain j where j: "findById (table (jobs s)) jobId = Some j"
    and st: "status j = PROCESSING" and tot: "total_lines j = N"
    and le: "processed_lines j + error_lines j \<le> K + (processedLines s + errorLines s)"
    unfolding ledger_ok_def by blast
  have "filter allowedField ?fs = ?fs" "?fs \<noteq> []" by simp_all
  from updateProgress_row [OF j st this u]
  have stp: "steps jobId (jobs s) db"
    and row: "findById (table db) jobId = Some (if r = None then foldl set_field j ?fs else j)"
    by simp_all
  have re: "reached (progress_step pg jobId s) = s\<lparr>jobs := db\<rparr>"
    using True u by (cases r) (simp_all add: progress_step_def)
  have "ledger_ok jobId N K (s\<lparr>jobs := db\<rparr>)"
    unfolding ledger_ok_def using row st tot le K by (cases r) auto
  with re stp show ?thesis by simp
qed

lemma process_line_inv:
  assumes ok: "ledger_ok jobId N K s" and K: "0 \<le> K"
  shows "ledger_ok jobId N K (reached (process_line pg pd txn jobId fp s line)) \<and>
         steps jobId (jobs s) (jobs (reached (process_line pg pd txn jobId fp s line))) \<and>
         processedLines (reached (process_line pg pd txn jobId fp s line))
           + errorLines (reached (process_line pg pd txn jobId fp s line)) =
             processedLines s + errorLines s + (if blank line then 0 else 1)"
proof (cases "parse_step pg pd jobId fp s line")
  case (Inl x)
  then have "process_line pg pd txn jobId fp s line = parse_step pg pd jobId fp s line"
    by (simp add: process_line_def)
  with parse_step_inv [OF ok, of pg pd fp line] show ?thesis by simp
next
  case (Inr s1)
  from parse_step_inv [OF ok, of pg pd fp line] Inr
  have ok1: "ledger_ok jobId N K s1" and st1: "steps jobId (jobs s) (jobs s1)"
    and sum1: "processedLines s1 + errorLines s1 =
                 processedLines s + errorLines s + (if blank line then 0 else 1)"
    by simp_all
  let ?s2 = "batch_step txn s1"
  from ok1 have ok2: "ledger_ok jobId N K ?s2" by simp
  have pl: "process_line pg pd txn jobId fp s line = progress_step pg jobId ?s2"
    using Inr by (simp add: process_line_def)
  from progress_step_inv [OF ok2 K, of pg]
  have "ledger_ok jobId N K (reached (progress_step pg jobId ?s2))"
    and "steps jobId (jobs s1) (jobs (reached (progress_step pg jobId ?s2)))"
    and "processedLines (reached (progress_step pg jobId ?s2))
           + errorLines (reached (progress_step pg jobId ?s2)) =
             processedLines s1 + errorLines s1"
    by simp_all
  with st1 sum1 show ?thesis
    unfolding pl using steps_trans [of jobId "jobs s" "jobs s1"] by auto
qed

lemma process_lines_inv:
  assumes ok: "ledger_ok jobId N K s" and K: "0 \<le> K"
  shows "ledger_ok jobId N K (reached (process_lines pg pd txn jobId fp s ls)) \<and>
         steps jobId (jobs s) (jobs (reached (process_lines pg pd txn jobId fp s ls))) \<and>
         processedLines (reached (process_lines pg pd txn jobId fp s ls))
           + errorLines (reached (process_lines pg pd txn jobId fp s ls))
             \<le> processedLines s + errorLines s + int (length ls) \<and>
         (\<forall>s'. process_lines pg pd txn jobId fp s ls = Inr s' \<longrightarrow>
            processedLines s' + errorLines s' =
              processedLines s + errorLines s + int (length (filter (\<lambda>l. \<not> blank l) ls)))"
  using ok
proof (induction ls arbitrary: s)
  case Nil
  then show ?case by simp
next
  case (Cons line rest)
  let ?r1 = "process_line pg pd txn jobId fp s line"
  from process_line_inv [OF Cons.prems K, of pg pd txn fp line]
  have ok1: "ledger_ok jobId N K (reached ?r1)"
    and st1: "steps jobId (jobs s) (jobs (reached ?r1))"
    and sum1: "processedLines (reached ?r1) + errorLines (reached ?r1) =
                 processedLines s + errorLines s + (if blank line then 0 else 1)"
    by simp_all
  show ?case
  proof (cases ?r1)
    case (Inl x)
    then have "process_lines pg pd txn jobId fp s (line # rest) = ?r1" by simp
    with ok1 st1 sum1 Inl show ?thesis by auto
  next
    case (Inr s1)
    then have pl: "process_lines pg pd txn jobId fp s (line # rest) =
                     process_lines pg pd txn jobId fp s1 rest"
      by simp
    from Inr ok1 st1 sum1 have ok1': "ledger_ok jobId N K s1"
      and st1': "steps jobId (jobs s) (jobs s1)"
      and sum1': "processedLines s1 + errorLines s1 =
                 processedLines s + errorLines s + (if blank line then 0 else 1)"
      by simp_all
    let ?r = "process_lines pg pd txn jobId fp s1 rest"
    from Cons.IH [OF ok1']
    have ok2: "ledger_ok jobId N K (reached ?r)"
      and st2: "steps jobId (jobs s1) (jobs (reached ?r))"
      and le2: "processedLines (reached ?r) + errorLines (reached ?r)
                  \<le> processedLines s1 + errorLines s1 + int (length rest)"
      and eq2: "\<And>s'. ?r = Inr s' \<Longrightarrow> processedLines s' + errorLines s' =
                  processedLines s1 + errorLines s1 + int (length (filter (\<lambda>l. \<not> blank l) rest))"
      by simp_all
    have st: "steps jobId (jobs s) (jobs (reached ?r))"
      by (rule steps_trans [OF st1' st2])
    have le: "processedLines (reached ?r) + errorLines (reached ?r)
                \<le> processedLines s + errorLines s + int (length (line # rest))"
      using le2 sum1' by (simp split: if_splits)
    have eq: "processedLines s' + errorLines s' =
                processedLines s + errorLines s
                  + int (length (filter (\<lambda>l. \<not> blank l) (line # rest)))"
      if "?r = Inr s'" for s'
      using eq2 [OF that] sum1' by (simp split: if_splits)
    show ?thesis
      unfolding pl
    proof (intro conjI allI impI)
      show "ledger_ok jobId N K (reached ?r)" by (rule ok2)
      show "steps jobId (jobs s) (jobs (reached ?r))" by (rule st)
      show "processedLines (reached ?r) + errorLines (reached ?r)
              \<le> processedLines s + errorLines s + int (length (line # rest))"
        by (rule le)
      fix s' assume "?r = Inr s'"
      then show "processedLines s' + errorLines s' =
                processedLines s + errorLines s
                  + int (length (filter (\<lambda>l. \<not> blank l) (line # rest)))"
        by (rule eq)
    qed
  qed
qed

subsection \<open>The controller's statements keep the identifiers of the table\<close>

lemma job_ids_update_where:
  assumes "\<And>j. job_id (f j) = job_id j"
  shows "map job_id (update_where k f l) = map job_id l"
  by (simp add: update_where_def assms)

lemma job_ids_effect:
  "map job_id (effect (UpdateJob k fs) t) = map job_id t"
  "map job_id (effect (AppendError k m) t) = map job_id t"
  "map job_id (effect (FailJob k m now) t) = map job_id t"
  by (simp_all add: job_ids_update_where)

lemma job_ids_query:
  assumes "query pg db q = (r, db')" and "map job_id (effect q (table db)) = map job_id (table db)"
  shows "map job_id (table db') = map job_id (table db)"
  using query_result(2) [OF assms(1)] assms(2) by (cases r) simp_all

lemma job_ids_updateProgress:
  "map job_id (table (snd (updateProgress pg db jobId fs))) = map job_id (table db)"
proof (cases "filter allowedField fs = []")
  case True
  then show ?thesis by (simp add: updateProgress_def)
next
  case False
  obtain r db' where q: "query pg db (UpdateJob jobId (filter allowedField fs)) = (r, db')"
    by (cases "query pg db (UpdateJob jobId (filter allowedField fs))")
  have "map job_id (table db') = map job_id (table db)"
    by (rule job_ids_query [OF q]) (rule job_ids_effect)
  with False q show ?thesis
    by (simp add: updateProgress_def Let_def)
qed

lemma job_ids_addError:
  "map job_id (table (snd (addError pg db jobId m))) = map job_id (table db)"
proof -
  obtain r db' where q: "query pg db (AppendError jobId m) = (r, db')"
    by (cases "query pg db (AppendError jobId m)")
  have "map job_id (table db') = map job_id (table db)"
    by (rule job_ids_query [OF q]) (rule job_ids_effect)
  with q show ?thesis by (simp add: addError_def)
qed

lemma job_ids_parse_step:
  "map job_id (table (jobs (reached (parse_step pg pd jobId fp s line)))) =
     map job_id (table (jobs s))"
proof (cases "parseLine pd line (Suc (lineNumber s)) fp")
  case (Inr res)
  then show ?thesis by (cases res) (simp_all add: parse_step_def Let_def)
next
  case (Inl err)
  let ?s2 = "s\<lparr>lineNumber := Suc (lineNumber s), errorLines := errorLines s + 1\<rparr>"
  let ?m = "''Line '' @ digits (Suc (lineNumber s)) @ '': '' @ error_message err"
  obtain r db where a: "addError pg (jobs s) jobId ?m = (r, db)"
    by (cases "addError pg (jobs s) jobId ?m")
  have ps: "parse_step pg pd jobId fp s line =
     (case addError pg (jobs s) jobId ?m of
        (Some e, db) \<Rightarrow> Inl (e, ?s2\<lparr>jobs := db\<rparr>)
      | (None, db) \<Rightarrow> Inr (?s2\<lparr>jobs := db\<rparr>))"
    using Inl by (simp add: parse_step_def Let_def)
  have re: "reached (parse_step pg pd jobId fp s line) = ?s2\<lparr>jobs := db\<rparr>"
    unfolding ps a by (cases r) simp_all
  from job_ids_addError [of pg "jobs s" jobId ?m] a show ?thesis
    unfolding re by simp
qed

lemma job_ids_progress_step:
  "map job_id (table (jobs (reached (progress_step pg jobId s)))) = map job_id (table (jobs s))"
proof (cases "lineNumber s mod 100 = 0")
  case False
  then show ?thesis by (simp add: progress_step_def)
next
  case True
  let ?fs = "[ProcessedLines (processedLines s), ErrorLines (errorLines s)]"
  obtain r db where u: "updateProgress pg (jobs s) jobId ?fs = (r, db)"
    by (cases "updateProgress pg (jobs s) jobId ?fs")
  have re: "reached (progress_step pg jobId s) = s\<lparr>jobs := db\<rparr>"
    using True u by (cases r) (simp_all add: progress_step_def)
  from job_ids_updateProgress [of pg "jobs s" jobId ?fs] u show ?thesis
    unfolding re by simp
qed

lemma job_ids_process_line:
  "map job_id (table (jobs (reached (process_line pg pd txn jobId fp s line)))) =
     map job_id (table (jobs s))"
proof (cases "parse_step pg pd jobId fp s line")
  case (Inl x)
  then have "process_line pg pd txn jobId fp s line = parse_step pg pd jobId fp s line"
    by (simp add: process_line_def)
  then show ?thesis by (simp add: job_ids_parse_step)
next
  case (Inr s1)
  then have "process_line pg pd txn jobId fp s line = progress_step pg jobId (batch_step txn s1)"
    by (simp add: process_line_def)
  moreover from job_ids_parse_step [of pg pd jobId fp s line] Inr
  have "map job_id (table (jobs s1)) = map job_id (table (jobs s))" by simp
  ultimately show ?thesis by (simp add: job_ids_progress_step)
qed

lemma job_ids_process_lines:
  "map job_id (table (jobs (reached (process_lines pg pd txn jobId fp s ls)))) =
     map job_id (table (jobs s))"
proof (induction ls arbitrary: s)
  case Nil
  show ?case by simp
next
  case (Cons line rest)
  show ?case
  proof (cases "process_line pg pd txn jobId fp s line")
    case (Inl x)
    then have "process_lines pg pd txn jobId fp s (line # rest) =
                 process_line pg pd txn jobId fp s line"
      by simp
    then show ?thesis by (simp add: job_ids_process_line)
  next
    case (Inr s1)
    then have "process_lines pg pd txn jobId fp s (line # rest) =
                 process_lines pg pd txn jobId fp s1 rest"
      by simp
    moreover from job_ids_process_line [of pg pd txn jobId fp s line] Inr
    have "map job_id (table (jobs s1)) = map job_id (table (jobs s))" by simp
    ultimately show ?thesis by (simp add: Cons.IH)
  qed
qed

subsection \<open>A run in which the server accepts every statement\<close>

lemma updateProgress_no_fault:
  assumes "\<forall>n t q. pg n t q = None" and "filter allowedField fs \<noteq> []"
  shows "\<exists>db'. updateProgress pg db jobId fs = (None, db')"
proof -
  have "fst (query pg db (UpdateJob jobId (filter allowedField fs))) = None"
    using assms(1) by (intro query_no_fault) simp_all
  then obtain db' where "query pg db (UpdateJob jobId (filter allowedField fs)) = (None, db')"
    by (cases "query pg db (UpdateJob jobId (filter allowedField fs))") simp
  with assms(2) show ?thesis by (simp add: updateProgress_def Let_def)
qed

lemma addError_no_fault:
  assumes "\<forall>n t q. pg n t q = None"
  shows "\<exists>db'. addError pg db jobId m = (None, db')"
proof -
  have "fst (query pg db (AppendError jobId m)) = None"
    using assms by (intro query_no_fault) simp_all
  then show ?thesis
    by (cases "query pg db (AppendError jobId m)") (simp add: addError_def)
qed

lemma parse_step_no_fault:
  assumes "\<forall>n t q. pg n t q = None"
  shows "\<exists>s'. parse_step pg pd jobId fp s line = Inr s'"
proof (cases "parseLine pd line (Suc (lineNumber s)) fp")
  case (Inr res)
  then show ?thesis by (cases res) (simp_all add: parse_step_def Let_def)
next
  case (Inl err)
  let ?s2 = "s\<lparr>lineNumber := Suc (lineNumber s), errorLines := errorLines s + 1\<rparr>"
  let ?m = "''Line '' @ digits (Suc (lineNumber s)) @ '': '' @ error_message err"
  obtain db where a: "addError pg (jobs s) jobId ?m = (None, db)"
    using addError_no_fault [OF assms] by blast
  have ps: "parse_step pg pd jobId fp s line =
     (case addError pg (jobs s) jobId ?m of
        (Some e, db) \<Rightarrow> Inl (e, ?s2\<lparr>jobs := db\<rparr>)
      | (None, db) \<Rightarrow> Inr (?s2\<lparr>jobs := db\<rparr>))"
    using Inl by (simp add: parse_step_def Let_def)
  show ?thesis unfolding ps a by simp
qed

lemma progress_step_no_fault:
  assumes "\<forall>n t q. pg n t q = None"
  shows "\<exists>s'. progress_step pg jobId s = Inr s'"
proof (cases "lineNumber s mod 100 = 0")
  case False
  then show ?thesis by (simp add: progress_step_def)
next
  case True
  let ?fs = "[ProcessedLines (processedLines s), ErrorLines (errorLines s)]"
  have "filter allowedField ?fs \<noteq> []" by simp
  from updateProgress_no_fault [OF assms this]
  obtain db where "updateProgress pg (jobs s) jobId ?fs = (None, db)" by blast
  with True show ?thesis by (simp add: progress_step_def)
qed

lemma process_lines_no_fault:
  assumes "\<forall>n t q. pg n t q = None"
  shows "\<exists>s'. process_lines pg pd txn jobId fp s ls = Inr s'"
proof (induction ls arbitrary: s)
  case Nil
  show ?case by simp
next
  case (Cons line rest)
  obtain s1 where p1: "parse_step pg pd jobId fp s line = Inr s1"
    using parse_step_no_fault [OF assms] by blast
  obtain s2 where p2: "progress_step pg jobId (batch_step txn s1) = Inr s2"
    using progress_step_no_fault [OF assms] by blast
  from p1 p2 have "process_line pg pd txn jobId fp s line = Inr s2"
    by (simp add: process_line_def)
  with Cons.IH [of s2] show ?case by simp
qed

lemma processFile_clean:
  assumes j0: "findById (table db) jobId = Some j0"
    and c0: "failure (crs CountPass fp) = None" and c1: "failure (crs LoopPass fp) = None"
    and nf: "\<forall>n t q. pg n t q = None"
  shows "\<exists>db' st' j p e.
           processFile pg pd txn now crs jobId fp (db, st0) = (None, db', st') \<and>
           findById (table db') jobId = Some j \<and>
           commit_batches txn st0 (chunks batchSize (drafts_from pd fp 0 (delivered (crs LoopPass fp))))
             = (st', p, e) \<and>
           processed_lines j = int p \<and>
           error_lines j = int (parse_errors_from pd fp 0 (delivered (crs LoopPass fp))) + int e \<and>
           status j = COMPLETED \<and> end_time j = Some now"
proof -
  let ?lines = "delivered (crs LoopPass fp)"
  let ?n = "int (length (delivered (crs CountPass fp)))"
  obtain db1 where u1: "updateProgress pg db jobId [TotalLines ?n] = (None, db1)"
    using updateProgress_no_fault [OF nf, of "[TotalLines ?n]"] by auto
  let ?s0 = "\<lparr> lineNumber = 0, processedLines = 0, errorLines = 0, eventBatch = [],
               jobs = db1, store = st0 \<rparr>"
  obtain s1 where run: "process_lines pg pd txn jobId fp ?s0 ?lines = Inr s1"
    using process_lines_no_fault [OF nf] by blast
  let ?s2 = "final_batch txn s1"
  let ?fs = "[ProcessedLines (processedLines ?s2), ErrorLines (errorLines ?s2),
              Status COMPLETED, EndTime now]"
  obtain db2 where u2: "updateProgress pg (jobs s1) jobId ?fs = (None, db2)"
    using updateProgress_no_fault [OF nf, of ?fs] by auto
  have pf: "processFile pg pd txn now crs jobId fp (db, st0) = (None, db2, store ?s2)"
    by (simp add: processFile_def processFile_try_def countLines_def c0 c1 u1 run u2 Let_def)
  have b0: "length (eventBatch ?s0) < batchSize" by (simp add: batchSize_def)
  from process_lines_account [OF b0 run]
  have b1: "length (eventBatch s1) < batchSize"
    and acc: "account txn s1 [] =
              (case account txn ?s0 (drafts_from pd fp (lineNumber ?s0) ?lines) of
                 (st, p, e) \<Rightarrow> (st, p, e + int (parse_errors_from pd fp (lineNumber ?s0) ?lines)))"
    by blast+
  have "map job_id (table db1) = map job_id (table db)"
    using job_ids_updateProgress [of pg db jobId "[TotalLines ?n]"] u1 by simp
  moreover have "map job_id (table (jobs s1)) = map job_id (table db1)"
    using job_ids_process_lines [of pg pd txn jobId fp ?s0 ?lines] run by simp
  ultimately have "jobId \<in> set (map job_id (table (jobs s1)))"
    using j0 findById_None_iff [of "table db" jobId] by simp
  then obtain j1 where j1: "findById (table (jobs s1)) jobId = Some j1"
    using findById_None_iff [of "table (jobs s1)" jobId] by (cases "findById (table (jobs s1)) jobId") auto
  from u2 have q2: "query pg (jobs s1) (UpdateJob jobId ?fs) = (None, db2)"
    by (simp add: updateProgress_def Let_def)
  have fin: "findById (table db2) jobId = Some (foldl set_field j1 ?fs)"
    using query_row [OF j1 q2 findById_effect(1) [OF j1]] by simp
  obtain st' p e where cb:
    "commit_batches txn st0 (chunks batchSize (drafts_from pd fp 0 ?lines)) = (st', p, e)"
    by (cases "commit_batches txn st0 (chunks batchSize (drafts_from pd fp 0 ?lines))")
  from acc cb have "account txn s1 [] = (st', int p, int e + int (parse_errors_from pd fp 0 ?lines))"
    by (simp add: account_def)
  with account_final [OF b1, of txn]
  have st: "store ?s2 = st'" and pp: "processedLines ?s2 = int p"
    and ee: "errorLines ?s2 = int e + int (parse_errors_from pd fp 0 ?lines)"
    by simp_all
  from pf fin cb st pp ee show ?thesis
    by (intro exI [of _ db2] exI [of _ st'] exI [of _ "foldl set_field j1 ?fs"]
        exI [of _ p] exI [of _ e]) simp
qed

subsection \<open>Every run of the background task\<close>

text \<open>
  The \<open>try\<close> block of \<open>processFile\<close> on a job that is PROCESSING. When it is left by an
  exception the job is still PROCESSING; its counters are as they were, or its total is
  the number of lines counted and its two other counters together are at most the
  number of lines of the second reading (plus what they held before). When it runs to
  its end, neither reading failed and the job is COMPLETED with the number of lines
  counted and with the non-blank lines of the second reading in the two counters.
\<close>

lemma processFile_try_inv:
  assumes j0: "findById (table db) jobId = Some j0" and st0: "status j0 = PROCESSING"
    and K: "processed_lines j0 + error_lines j0 \<le> K" and K0: "0 \<le> K"
    and r: "processFile_try pg pd txn now crs jobId fp (db, st) = r"
  shows "case r of
           Inl (e, db', st') \<Rightarrow>
             steps jobId db db' \<and>
             (\<exists>j. findById (table db') jobId = Some j \<and> status j = PROCESSING \<and>
                  ((total_lines j = total_lines j0 \<and> processed_lines j = processed_lines j0 \<and>
                    error_lines j = error_lines j0) \<or>
                   (total_lines j = int (length (delivered (crs CountPass fp))) \<and>
                    processed_lines j + error_lines j
                      \<le> K + int (length (delivered (crs LoopPass fp))))))
         | Inr (db', st') \<Rightarrow>
             steps jobId db db' \<and> failure (crs CountPass fp) = None \<and> failure (crs LoopPass fp) = None \<and>
             (\<exists>j. findById (table db') jobId = Some j \<and> status j = COMPLETED \<and>
                  end_time j = Some now \<and>
                  total_lines j = int (length (delivered (crs CountPass fp))) \<and>
                  processed_lines j + error_lines j =
                    int (length (filter (\<lambda>l. \<not> blank l) (delivered (crs LoopPass fp)))))"
proof (cases "failure (crs CountPass fp)")
  case (Some e)
  then have "r = Inl (e, db, st)"
    using r by (simp add: processFile_try_def countLines_def)
  with j0 st0 show ?thesis by simp
next
  case None
  let ?n = "int (length (delivered (crs CountPass fp)))"
  let ?lines = "delivered (crs LoopPass fp)"
  obtain r1 db1 where u1: "updateProgress pg db jobId [TotalLines ?n] = (r1, db1)"
    by (cases "updateProgress pg db jobId [TotalLines ?n]")
  have "filter allowedField [TotalLines ?n] = [TotalLines ?n]" "[TotalLines ?n] \<noteq> []"
    by simp_all
  from updateProgress_row [OF j0 st0 this u1]
  have s1: "steps jobId db db1"
    and row1: "findById (table db1) jobId = Some (if r1 = None then j0\<lparr>total_lines := ?n\<rparr> else j0)"
    by simp_all
  show ?thesis
  proof (cases r1)
    case (Some e)
    then have "r = Inl (e, db1, st)"
      using r None u1 by (simp add: processFile_try_def countLines_def)
    with s1 row1 Some st0 show ?thesis by simp
  next
    case r1: None
    let ?s0 = "\<lparr> lineNumber = 0, processedLines = 0, errorLines = 0, eventBatch = [],
                 jobs = db1, store = st \<rparr>"
    let ?R = "process_lines pg pd txn jobId fp ?s0 ?lines"
    have ok0: "ledger_ok jobId ?n K ?s0"
      unfolding ledger_ok_def using row1 r1 st0 K by simp
    from process_lines_inv [OF ok0 K0, of pg pd txn fp ?lines]
    have okR: "ledger_ok jobId ?n K (reached ?R)"
      and sR: "steps jobId db1 (jobs (reached ?R))"
      and leR: "processedLines (reached ?R) + errorLines (reached ?R) \<le> int (length ?lines)"
      and eqR: "\<And>s'. ?R = Inr s' \<Longrightarrow> processedLines s' + errorLines s' =
                  int (length (filter (\<lambda>l. \<not> blank l) ?lines))"
      by simp_all
    from okR obtain j where j: "findById (table (jobs (reached ?R))) jobId = Some j"
      and stj: "status j = PROCESSING" and totj: "total_lines j = ?n"
      and lej: "processed_lines j + error_lines j
                  \<le> K + (processedLines (reached ?R) + errorLines (reached ?R))"
      unfolding ledger_ok_def by blast
    from lej leR have bound: "processed_lines j + error_lines j \<le> K + int (length ?lines)"
      by simp
    have sR': "steps jobId db (jobs (reached ?R))" by (rule steps_trans [OF s1 sR])
    show ?thesis
    proof (cases ?R)
      case (Inl x)
      obtain e s where x: "x = (e, s)" by (cases x)
      with Inl have "r = Inl (e, jobs s, store s)"
        using r None u1 r1 by (simp add: processFile_try_def countLines_def)
      moreover from Inl x have "reached ?R = s" by simp
      ultimately show ?thesis using sR' j stj totj bound by simp
    next
      case (Inr s)
      then have re: "reached ?R = s" by simp
      show ?thesis
      proof (cases "failure (crs LoopPass fp)")
        case (Some e)
        then have "r = Inl (e, jobs s, store s)"
          using r None u1 r1 Inr by (simp add: processFile_try_def countLines_def)
        with sR' j stj totj bound re show ?thesis by simp
      next
        case c1: None
        let ?s2 = "final_batch txn s"
        let ?fs = "[ProcessedLines (processedLines ?s2), ErrorLines (errorLines ?s2),
                    Status COMPLETED, EndTime now]"
        obtain r2 db2 where u2: "updateProgress pg (jobs ?s2) jobId ?fs = (r2, db2)"
          by (cases "updateProgress pg (jobs ?s2) jobId ?fs")
        have js: "findById (table (jobs s)) jobId = Some j" using j re by simp
        have "filter allowedField ?fs = ?fs" "?fs \<noteq> []" by simp_all
        from updateProgress_row [OF js stj this, of pg] u2
        have s2: "steps jobId (jobs s) db2"
          and row2: "findById (table db2) jobId =
                       Some (if r2 = None then foldl set_field j ?fs else j)"
          by simp_all
        have s2': "steps jobId db db2"
          using steps_trans [OF sR' [unfolded re] s2] .
        show ?thesis
        proof (cases r2)
          case (Some e)
          then have "r = Inl (e, db2, store ?s2)"
            using r None u1 r1 Inr c1 u2
            by (simp add: processFile_try_def countLines_def Let_def)
          with s2' row2 Some stj totj bound show ?thesis by simp
        next
          case r2: None
          then have "r = Inr (db2, store ?s2)"
            using r None u1 r1 Inr c1 u2
            by (simp add: processFile_try_def countLines_def Let_def)
          moreover have "processedLines ?s2 + errorLines ?s2 =
                           int (length (filter (\<lambda>l. \<not> blank l) ?lines))"
            using eqR [OF Inr] by simp
          ultimately show ?thesis using s2' row2 r2 None c1 totj by simp
        qed
      qed
    qed
  qed
qed

text \<open>
  The whole task: whatever the server and the two readings do, the statements are sent
  while the job is PROCESSING, the job is still in the table at the end, and its
  counters are within the bounds above; when it ends COMPLETED they are exact.
\<close>

lemma ingestion_task_inv:
  assumes j0: "findById (table db) jobId = Some j0" and st0: "status j0 = PROCESSING"
    and K: "processed_lines j0 + error_lines j0 \<le> K" and K0: "0 \<le> K"
  shows "steps jobId db (fst (ingestion_task pg pd txn now crs jobId fp (db, st))) \<and>
         (\<exists>j. findById (table (fst (ingestion_task pg pd txn now crs jobId fp (db, st)))) jobId
                = Some j \<and>
              ((total_lines j = total_lines j0 \<and> processed_lines j = processed_lines j0 \<and>
                error_lines j = error_lines j0) \<or>
               (total_lines j = int (length (delivered (crs CountPass fp))) \<and>
                processed_lines j + error_lines j
                  \<le> K + int (length (delivered (crs LoopPass fp))))) \<and>
              (status j = COMPLETED \<longrightarrow>
                 failure (crs CountPass fp) = None \<and> failure (crs LoopPass fp) = None \<and>
                 total_lines j = int (length (delivered (crs CountPass fp))) \<and>
                 processed_lines j + error_lines j =
                   int (length (filter (\<lambda>l. \<not> blank l) (delivered (crs LoopPass fp))))))"
proof (cases "processFile_try pg pd txn now crs jobId fp (db, st)")
  case (Inr w)
  obtain db' st' where w: "w = (db', st')" by (cases w)
  from processFile_try_inv [OF j0 st0 K K0 Inr] w
  have s: "steps jobId db db'" and c: "failure (crs CountPass fp) = None" "failure (crs LoopPass fp) = None"
    and "\<exists>j. findById (table db') jobId = Some j \<and> status j = COMPLETED \<and>
              end_time j = Some now \<and>
              total_lines j = int (length (delivered (crs CountPass fp))) \<and>
              processed_lines j + error_lines j =
                int (length (filter (\<lambda>l. \<not> blank l) (delivered (crs LoopPass fp))))"
    by simp_all
  then obtain j where j: "findById (table db') jobId = Some j"
    and tot: "total_lines j = int (length (delivered (crs CountPass fp)))"
    and eq: "processed_lines j + error_lines j =
                int (length (filter (\<lambda>l. \<not> blank l) (delivered (crs LoopPass fp))))"
    by blast
  have "int (length (filter (\<lambda>l. \<not> blank l) (delivered (crs LoopPass fp))))
          \<le> int (length (delivered (crs LoopPass fp)))"
    by simp
  with eq K0 have le: "processed_lines j + error_lines j \<le> K + int (length (delivered (crs LoopPass fp)))"
    by linarith
  have "ingestion_task pg pd txn now crs jobId fp (db, st) = (db', st')"
    using Inr w by (simp add: ingestion_task_def processFile_def)
  with s c j tot eq le show ?thesis by simp
next
  case (Inl x)
  obtain e db1 st1 where x: "x = (e, db1, st1)" by (cases x)
  let ?m = "''Processing failed: '' @ e"
  from processFile_try_inv [OF j0 st0 K K0 Inl] x
  have s1: "steps jobId db db1"
    and "\<exists>j. findById (table db1) jobId = Some j \<and> status j = PROCESSING \<and>
              ((total_lines j = total_lines j0 \<and> processed_lines j = processed_lines j0 \<and>
                error_lines j = error_lines j0) \<or>
               (total_lines j = int (length (delivered (crs CountPass fp))) \<and>
                processed_lines j + error_lines j
                  \<le> K + int (length (delivered (crs LoopPass fp)))))"
    by simp_all
  then obtain j where j: "findById (table db1) jobId = Some j" and stj: "status j = PROCESSING"
    and bj: "(total_lines j = total_lines j0 \<and> processed_lines j = processed_lines j0 \<and>
                error_lines j = error_lines j0) \<or>
               (total_lines j = int (length (delivered (crs CountPass fp))) \<and>
                processed_lines j + error_lines j
                  \<le> K + int (length (delivered (crs LoopPass fp))))"
    by blast
  obtain r2 db2 where f2: "fail pg now db1 jobId ?m = (r2, db2)"
    by (cases "fail pg now db1 jobId ?m")
  from fail_row [OF j stj f2]
  have s2: "steps jobId db1 db2"
    and row2: "findById (table db2) jobId =
           Some (if r2 = None
                 then j\<lparr>status := FAILED, end_time := Some now, errors := errors j @ [?m]\<rparr>
                 else j)"
    by simp_all
  have s12: "steps jobId db db2" by (rule steps_trans [OF s1 s2])
  have pf: "processFile pg pd txn now crs jobId fp (db, st) = (r2, db2, st1)"
    using Inl x f2 by (simp add: processFile_def)
  show ?thesis
  proof (cases r2)
    case None
    then have "ingestion_task pg pd txn now crs jobId fp (db, st) = (db2, st1)"
      using pf by (simp add: ingestion_task_def)
    with s12 row2 None bj show ?thesis by auto
  next
    case (Some e2)
    let ?m2 = "''Processing failed: '' @ e2"
    from row2 Some have j2: "findById (table db2) jobId = Some j" by simp
    obtain r3 db3 where f3: "fail pg now db2 jobId ?m2 = (r3, db3)"
      by (cases "fail pg now db2 jobId ?m2")
    from fail_row [OF j2 stj f3]
    have s3: "steps jobId db2 db3"
      and row3: "findById (table db3) jobId =
           Some (if r3 = None
                 then j\<lparr>status := FAILED, end_time := Some now, errors := errors j @ [?m2]\<rparr>
                 else j)"
      by simp_all
    have s13: "steps jobId db db3" by (rule steps_trans [OF s12 s3])
    have "ingestion_task pg pd txn now crs jobId fp (db, st) = (db3, st1)"
      using pf Some f3 by (simp add: ingestion_task_def)
    with s13 row3 bj stj show ?thesis by (cases r3) auto
  qed
qed

subsection \<open>Batch failures and line counters (C2, C3)\<close>

lemma is_valid_any:
  "is_valid pd line \<Longrightarrow> \<exists>d. parseLine pd line n fp = Inr (Some d)"
  by (auto simp: is_valid_def parseLine_def Let_def split: option.splits if_splits)

lemma drafts_all_valid:
  "\<forall>line \<in> set ls. is_valid pd line \<Longrightarrow>
     length (drafts_from pd fp n ls) = length ls \<and> parse_errors_from pd fp n ls = 0"
proof (induction ls arbitrary: n)
  case Nil
  show ?case by simp
next
  case (Cons line rest)
  then obtain d where "parseLine pd line (Suc n) fp = Inr (Some d)"
    using is_valid_any [of pd line "Suc n" fp] by auto
  with Cons show ?case by simp
qed

lemma batch_step_failure:
  assumes "batchSize \<le> length (eventBatch s)" and "txn (store s) (eventBatch s) = (False, st)"
  shows "batch_step txn s =
           s\<lparr>store := st,
             errorLines := errorLines s + int (length (eventBatch s)),
             processedLines := processedLines s - int (length (eventBatch s)),
             eventBatch := []\<rparr>"
proof -
  from assms(1) have "eventBatch s \<noteq> []" by (auto simp: batchSize_def)
  with assms show ?thesis by (simp add: batch_step_def bulkCreate_def)
qed

lemma final_batch_failure:
  assumes "eventBatch s \<noteq> []" and "txn (store s) (eventBatch s) = (False, st)"
  shows "final_batch txn s =
           s\<lparr>store := st,
             errorLines := errorLines s + int (length (eventBatch s)),
             processedLines := processedLines s - int (length (eventBatch s))\<rparr>"
  using assms by (simp add: final_batch_def bulkCreate_def)

lemma chunks_150:
  assumes "length ds = 150"
  shows "chunks batchSize ds = [take 100 ds, drop 100 ds]"
proof -
  have "chunks batchSize ds = take 100 ds # chunks batchSize (drop 100 ds)"
    using assms by (subst chunks.simps) (auto simp: batchSize_def)
  moreover have "chunks batchSize (drop 100 ds) = [drop 100 ds]"
    using assms by (intro chunks_short) (simp_all add: batchSize_def)
  ultimately show ?thesis by simp
qed

text \<open>
  C2: a batch whose commit fails is counted whole as errors and taken back out of the
  processed counter, in the loop (where the batch is then emptied) and for the trailing
  batch alike. Over a whole run in which both readings of the file succeed and the
  server accepts every write to the ledger, every batch of 100 drafts (the last one
  partial) is offered to the Event Store exactly once, in order, and the job ends with
  \<open>processed_lines\<close> the size of the committed batches and \<open>error_lines\<close> the lines
  that failed to parse plus the size of the failed batches. For 150 valid lines, the
  batches are the first 100 drafts and the last 50; when the first commits and the
  second fails, the job ends with 100 processed and 50 errors.
\<close>

theorem C2_failed_batch_accounting:
  assumes "findById (table db) jobId = Some j0"
    and "failure (crs CountPass fp) = None" and "failure (crs LoopPass fp) = None"
    and "\<forall>n t q. pg n t q = None"
  shows "(\<forall>s st. batchSize \<le> length (eventBatch s) \<longrightarrow> txn (store s) (eventBatch s) = (False, st) \<longrightarrow>
            batch_step txn s =
              s\<lparr>store := st,
                errorLines := errorLines s + int (length (eventBatch s)),
                processedLines := processedLines s - int (length (eventBatch s)),
                eventBatch := []\<rparr>) \<and>
         (\<forall>s st. eventBatch s \<noteq> [] \<longrightarrow> txn (store s) (eventBatch s) = (False, st) \<longrightarrow>
            final_batch txn s =
              s\<lparr>store := st,
                errorLines := errorLines s + int (length (eventBatch s)),
                processedLines := processedLines s - int (length (eventBatch s))\<rparr>) \<and>
         (\<exists>db' st' j committed failed.
            processFile pg pd txn now crs jobId fp (db, st0) = (None, db', st') \<and>
            findById (table db') jobId = Some j \<and>
            commit_batches txn st0
                (chunks batchSize (drafts_from pd fp 0 (delivered (crs LoopPass fp))))
              = (st', committed, failed) \<and>
            processed_lines j = int committed \<and>
            error_lines j =
              int (parse_errors_from pd fp 0 (delivered (crs LoopPass fp))) + int failed \<and>
            (\<forall>st1 st2.
               length (delivered (crs LoopPass fp)) = 150 \<longrightarrow>
               (\<forall>line \<in> set (delivered (crs LoopPass fp)). is_valid pd line) \<longrightarrow>
               txn st0 (take 100 (drafts_from pd fp 0 (delivered (crs LoopPass fp)))) = (True, st1) \<longrightarrow>
               txn st1 (drop 100 (drafts_from pd fp 0 (delivered (crs LoopPass fp)))) = (False, st2) \<longrightarrow>
               length (take 100 (drafts_from pd fp 0 (delivered (crs LoopPass fp)))) = 100 \<and>
               length (drop 100 (drafts_from pd fp 0 (delivered (crs LoopPass fp)))) = 50 \<and>
               st' = st2 \<and> processed_lines j = 100 \<and> error_lines j = 50))"
proof (intro conjI allI impI)
  fix s :: "'a loop_state" and st
  assume "batchSize \<le> length (eventBatch s)" "txn (store s) (eventBatch s) = (False, st)"
  then show "batch_step txn s =
              s\<lparr>store := st,
                errorLines := errorLines s + int (length (eventBatch s)),
                processedLines := processedLines s - int (length (eventBatch s)),
                eventBatch := []\<rparr>"
    by (rule batch_step_failure)
next
  fix s :: "'a loop_state" and st
  assume "eventBatch s \<noteq> []" "txn (store s) (eventBatch s) = (False, st)"
  then show "final_batch txn s =
              s\<lparr>store := st,
                errorLines := errorLines s + int (length (eventBatch s)),
                processedLines := processedLines s - int (length (eventBatch s))\<rparr>"
    by (rule final_batch_failure)
next
  let ?lines = "delivered (crs LoopPass fp)"
  let ?ds = "drafts_from pd fp 0 ?lines"
  from assms processFile_clean [where db = db and jobId = jobId and ?j0.0 = j0 and crs = crs
      and fp = fp and pg = pg and pd = pd and txn = txn and now = now and ?st0.0 = st0]
  obtain db' st' j p e where pf: "processFile pg pd txn now crs jobId fp (db, st0) = (None, db', st')"
    and fj: "findById (table db') jobId = Some j"
    and cb: "commit_batches txn st0 (chunks batchSize ?ds) = (st', p, e)"
    and pl: "processed_lines j = int p"
    and el: "error_lines j = int (parse_errors_from pd fp 0 ?lines) + int e"
    by blast
  have scen: "length (take 100 ?ds) = 100 \<and> length (drop 100 ?ds) = 50 \<and>
              st' = st2 \<and> processed_lines j = 100 \<and> error_lines j = 50"
    if n: "length ?lines = 150" and v: "\<forall>line \<in> set ?lines. is_valid pd line"
      and t1: "txn st0 (take 100 ?ds) = (True, st1)"
      and t2: "txn st1 (drop 100 ?ds) = (False, st2)" for st1 st2
  proof -
    from drafts_all_valid [OF v, of fp 0] n
    have len: "length ?ds = 150" and pe: "parse_errors_from pd fp 0 ?lines = 0" by simp_all
    from cb chunks_150 [OF len] t1 t2 len
    have "st' = st2" "p = 100" "e = 50" by simp_all
    with pl el pe len show ?thesis by simp
  qed
  show "\<exists>db' st' j committed failed.
            processFile pg pd txn now crs jobId fp (db, st0) = (None, db', st') \<and>
            findById (table db') jobId = Some j \<and>
            commit_batches txn st0 (chunks batchSize ?ds) = (st', committed, failed) \<and>
            processed_lines j = int committed \<and>
            error_lines j = int (parse_errors_from pd fp 0 ?lines) + int failed \<and>
            (\<forall>st1 st2.
               length ?lines = 150 \<longrightarrow>
               (\<forall>line \<in> set ?lines. is_valid pd line) \<longrightarrow>
               txn st0 (take 100 ?ds) = (True, st1) \<longrightarrow>
               txn st1 (drop 100 ?ds) = (False, st2) \<longrightarrow>
               length (take 100 ?ds) = 100 \<and> length (drop 100 ?ds) = 50 \<and>
               st' = st2 \<and> processed_lines j = 100 \<and> error_lines j = 50)"
    using pf fj cb pl el scen by blast
qed


lemma example_split:
  "split_on CHR ''|'' example_line =
     [''a1b2c3d4-e5f6-4890-8234-567890abcdef'', ''Founding of ArchaeoData'',
      ''2023-01-01T10:00:00Z'', ''2023-01-01T11:30:00Z'', ''NULL'',
      ''Initial establishment of the company.'']"
  by (simp add: example_line_def)

lemma example_uuid: "isValidUUID ''a1b2c3d4-e5f6-4890-8234-567890abcdef''"
  by code_simp

lemma example_line_valid: "is_valid example_parseDate example_line"
proof -
  have t: "trim example_line \<noteq> []"
    by (simp add: example_line_def trim_def js_whitespace_def)
  have "parseLine example_parseDate example_line 0 [] \<noteq> Inr None"
    using t by (simp add: parseLine_None_iff blank_def)
  have tr: "trim ''a1b2c3d4-e5f6-4890-8234-567890abcdef'' = ''a1b2c3d4-e5f6-4890-8234-567890abcdef''"
    "trim ''2023-01-01T10:00:00Z'' = ''2023-01-01T10:00:00Z''"
    "trim ''2023-01-01T11:30:00Z'' = ''2023-01-01T11:30:00Z''"
    "trim ''NULL'' = ''NULL''"
    by (simp_all add: trim_def js_whitespace_def)
  have up: "toUpperCase ''NULL'' = ''NULL''"
    by (simp add: toUpperCase_def to_upper_def)
  show ?thesis
    using t by (simp add: is_valid_def parseLine_def example_split tr up example_uuid
        example_parseDate_def Let_def)
qed

lemma example_job_found: "findById [example_job] ''ingest-job-1-9f8e7d6c'' = Some example_job"
  by (simp add: findById_def example_job_def)

lemma example_db_found:
  "findById (table example_db) ''ingest-job-1-9f8e7d6c'' = Some example_job"
  by (simp add: example_db_def example_job_found)

lemma example_job_new:
  "status example_job = PROCESSING" "total_lines example_job = 0"
  "processed_lines example_job = 0" "error_lines example_job = 0"
  by (simp_all add: example_job_def)

lemma no_faults_accepts: "\<forall>n t q. no_faults n t q = None"
  by (simp add: no_faults_def)

text \<open>
  The scenario of C2 on a file of 150 copies of a valid line, with a store that logs
  the batch sizes it is offered and rejects the second batch.
\<close>

theorem C2_failed_batch_accounting_witness:
  "findById (table example_db) ''ingest-job-1-9f8e7d6c'' = Some example_job \<and>
   failure (example_stream (replicate 150 example_line) CountPass ''events.txt'') = None \<and>
   failure (example_stream (replicate 150 example_line) LoopPass ''events.txt'') = None \<and>
   (\<forall>n t q. no_faults n t q = None) \<and>
   (\<exists>db' j. processFile no_faults example_parseDate second_fails 2
              (example_stream (replicate 150 example_line))
              ''ingest-job-1-9f8e7d6c'' ''events.txt'' (example_db, []) = (None, db', [100, 50]) \<and>
           findById (table db') ''ingest-job-1-9f8e7d6c'' = Some j \<and>
           processed_lines j = 100 \<and> error_lines j = 50)"
proof -
  let ?crs = "example_stream (replicate 150 example_line)"
  let ?ds = "drafts_from example_parseDate ''events.txt'' 0 (delivered (?crs LoopPass ''events.txt''))"
  have h1: "failure (?crs CountPass ''events.txt'') = None"
    and h2: "failure (?crs LoopPass ''events.txt'') = None"
    by (simp_all add: example_stream_def)
  have n: "length (delivered (?crs LoopPass ''events.txt'')) = 150" by (simp add: example_stream_def)
  have v: "\<forall>line \<in> set (delivered (?crs LoopPass ''events.txt'')). is_valid example_parseDate line"
    by (simp add: example_stream_def example_line_valid)
  have len: "length ?ds = 150"
    using drafts_all_valid [OF v, of "''events.txt''" 0] n by simp
  have t1: "second_fails [] (take 100 ?ds) = (True, [100])"
    using len by (simp add: second_fails_def)
  have t2: "second_fails [100] (drop 100 ?ds) = (False, [100, 50])"
    using len by (simp add: second_fails_def)
  from C2_failed_batch_accounting [OF example_db_found,
      where crs = ?crs and fp = "''events.txt''" and pd = example_parseDate and pg = no_faults
        and txn = second_fails and now = 2 and ?st0.0 = "[]", OF h1 h2 no_faults_accepts]
  obtain db' st' j where
    pf: "processFile no_faults example_parseDate second_fails 2 ?crs
              ''ingest-job-1-9f8e7d6c'' ''events.txt'' (example_db, []) = (None, db', st')"
    and fj: "findById (table db') ''ingest-job-1-9f8e7d6c'' = Some j"
    and sc: "\<And>st1 st2. length (delivered (?crs LoopPass ''events.txt'')) = 150 \<Longrightarrow>
               (\<forall>line \<in> set (delivered (?crs LoopPass ''events.txt'')). is_valid example_parseDate line) \<Longrightarrow>
               second_fails [] (take 100 ?ds) = (True, st1) \<Longrightarrow>
               second_fails st1 (drop 100 ?ds) = (False, st2) \<Longrightarrow>
               st' = st2 \<and> processed_lines j = 100 \<and> error_lines j = 50"
    by blast
  from sc [OF n v t1 t2] pf fj h1 h2 example_db_found no_faults_accepts show ?thesis by blast
qed


text \<open>
  Why the bound of C3 asks that the file does not grow: when a line is appended between
  the count and the loop, the job ends COMPLETED with one line counted and two lines
  processed.
\<close>

lemma growing_file_exceeds_total:
  "\<exists>j. findById (table (fst (ingestion_task no_faults example_parseDate always_commits 2
                          growing_stream
                          ''ingest-job-1-9f8e7d6c'' ''events.txt'' (example_db, []))))
              ''ingest-job-1-9f8e7d6c'' = Some j \<and>
        status j = COMPLETED \<and> total_lines j = 1 \<and>
        processed_lines j + error_lines j = 2"
proof -
  let ?task = "ingestion_task no_faults example_parseDate always_commits 2 growing_stream
                 ''ingest-job-1-9f8e7d6c'' ''events.txt'' (example_db, [])"
  have h: "failure (growing_stream CountPass ''events.txt'') = None"
    "failure (growing_stream LoopPass ''events.txt'') = None"
    by (simp_all add: growing_stream_def)
  have b: "\<not> blank example_line"
    by (simp add: blank_def trim_def js_whitespace_def example_line_def)
  have K: "processed_lines example_job + error_lines example_job \<le> 0" and K0: "(0::int) \<le> 0"
    by (simp_all add: example_job_def)
  from ingestion_task_inv [OF example_db_found example_job_new(1) K K0,
      where pg = no_faults and pd = example_parseDate and txn = always_commits
        and now = 2 and crs = growing_stream and fp = "''events.txt''" and st = "[]"]
  obtain j where j: "findById (table (fst ?task)) ''ingest-job-1-9f8e7d6c'' = Some j"
    and c: "status j = COMPLETED \<longrightarrow>
              total_lines j = int (length (delivered (growing_stream CountPass ''events.txt''))) \<and>
              processed_lines j + error_lines j =
                int (length (filter (\<lambda>l. \<not> blank l)
                       (delivered (growing_stream LoopPass ''events.txt''))))"
    by blast
  from processFile_clean [where db = example_db and jobId = "''ingest-job-1-9f8e7d6c''"
      and ?j0.0 = example_job and crs = growing_stream and fp = "''events.txt''"
      and pg = no_faults and pd = example_parseDate and txn = always_commits and now = 2
      and ?st0.0 = "[]", OF example_db_found h no_faults_accepts]
  obtain db' st' j' where
    pf: "processFile no_faults example_parseDate always_commits 2 growing_stream
           ''ingest-job-1-9f8e7d6c'' ''events.txt'' (example_db, []) = (None, db', st')"
    and j': "findById (table db') ''ingest-job-1-9f8e7d6c'' = Some j'"
    and s': "status j' = COMPLETED"
    by blast
  from pf have "?task = (db', st')" by (simp add: ingestion_task_def)
  with j j' s' have "status j = COMPLETED" by simp
  with c b have "total_lines j = 1" "processed_lines j + error_lines j = 2"
    by (simp_all add: growing_stream_def)
  with j \<open>status j = COMPLETED\<close> show ?thesis by blast
qed

text \<open>
  A line whose identifier holds U+0000, on a server that cannot store that character in
  the text of an error: the line does not parse, the server rejects the entry for the
  error list, the rejection leaves the loop, and the job of a file that was read without
  any failure ends FAILED with its counters at zero.
\<close>

lemma nul_line_error:
  "parseLine example_parseDate (CHR ''a'' # CHR 0x00 # ''|b|c|d|e|f'') (Suc 0) ''events.txt'' =
     Inl (InvalidUUID [CHR ''a'', CHR 0x00])"
proof -
  have t: "trim [CHR ''a'', CHR 0x00] = [CHR ''a'', CHR 0x00]"
    by (simp add: trim_def js_whitespace_def)
  have u: "\<not> isValidUUID [CHR ''a'', CHR 0x00]" by code_simp
  have b: "trim (CHR ''a'' # CHR 0x00 # ''|b|c|d|e|f'') \<noteq> []"
    by (simp add: trim_def js_whitespace_def)
  show ?thesis using b by (simp add: parseLine_def t u Let_def)
qed

lemma rejected_error_entry_fails_job:
  "\<exists>j. findById
          (table (fst (ingestion_task rejects_nul example_parseDate always_commits 2
                      (example_stream [CHR ''a'' # CHR 0x00 # ''|b|c|d|e|f''])
                      ''ingest-job-1-9f8e7d6c'' ''events.txt'' (example_db, []))))
          ''ingest-job-1-9f8e7d6c'' = Some j \<and>
        status j = FAILED \<and> total_lines j = 1 \<and> processed_lines j = 0 \<and> error_lines j = 0 \<and>
        errors j = [''Processing failed: unsupported Unicode escape sequence'']"
  by (simp add: ingestion_task_def processFile_def processFile_try_def countLines_def
      example_stream_def updateProgress_def query_def server_verdict_def key_violation_def
      rejects_nul_def example_db_def example_job_def update_where_def findById_def
      parse_step_def process_line_def nul_line_error addError_def fail_def digit_char_def
      Let_def)

subsection \<open>Starting a job (C7)\<close>

lemma digit_value_digit_char: "d < 10 \<Longrightarrow> digit_value (digit_char d) = d"
proof -
  assume "d < 10"
  then have "d = 0 \<or> d = 1 \<or> d = 2 \<or> d = 3 \<or> d = 4 \<or> d = 5 \<or> d = 6 \<or> d = 7 \<or> d = 8 \<or> d = 9"
    by arith
  then show ?thesis
    by (elim disjE) (simp_all add: digit_char_def digit_value_def)
qed

lemma digit_char_not_dash: "digit_char d \<noteq> CHR ''-''"
  by (simp add: digit_char_def)

lemma nat_of_digits_snoc:
  "nat_of_digits (s @ [c]) = 10 * nat_of_digits s + digit_value c"
  by (simp add: nat_of_digits_def)

lemma nat_of_digits_digits: "nat_of_digits (digits n) = n"
proof (induction n rule: digits.induct)
  case (1 n)
  show ?case
  proof (cases "n < 10")
    case True
    then have "digits n = [digit_char n]" by (subst digits.simps) simp
    with True show ?thesis
      using nat_of_digits_snoc [of "[]" "digit_char n"]
      by (simp add: nat_of_digits_def digit_value_digit_char del: digits.simps)
  next
    case False
    then have d: "digits n = digits (n div 10) @ [digit_char (n mod 10)]"
      by (subst digits.simps) simp
    from 1 False have "nat_of_digits (digits (n div 10)) = n div 10" by simp
    then show ?thesis
      unfolding d by (simp add: nat_of_digits_snoc digit_value_digit_char del: digits.simps)
  qed
qed

lemma digits_no_dash: "CHR ''-'' \<notin> set (digits n)"
proof (induction n rule: digits.induct)
  case (1 n)
  show ?case
  proof (cases "n < 10")
    case True
    then have "digits n = [digit_char n]" by (subst digits.simps) simp
    then show ?thesis using digit_char_not_dash [of n] by (auto simp del: digits.simps)
  next
    case False
    then have d: "digits n = digits (n div 10) @ [digit_char (n mod 10)]"
      by (subst digits.simps) simp
    from 1 False have "CHR ''-'' \<notin> set (digits (n div 10))" by simp
    then show ?thesis
      unfolding d using digit_char_not_dash [of "n mod 10"] by (auto simp del: digits.simps)
  qed
qed

lemma split_at_first:
  assumes "c \<notin> set xs" and "c \<notin> set ys" and "xs @ c # x = ys @ c # y"
  shows "xs = ys \<and> x = y"
  using assms
proof (induction xs arbitrary: ys)
  case Nil
  then show ?case by (cases ys) auto
next
  case (Cons a xs)
  then show ?case by (cases ys) auto
qed

lemma generateJobId_inj:
  assumes "0 \<le> now" and "0 \<le> now'"
  shows "(generateJobId now uuid = generateJobId now' uuid') =
           (now = now' \<and> take 8 uuid = take 8 uuid')"
proof
  assume "generateJobId now uuid = generateJobId now' uuid'"
  then have "digits (nat now) @ CHR ''-'' # take 8 uuid =
             digits (nat now') @ CHR ''-'' # take 8 uuid'"
    by (simp add: generateJobId_def del: digits.simps)
  from split_at_first [OF digits_no_dash digits_no_dash this]
  have d: "digits (nat now) = digits (nat now')" and u: "take 8 uuid = take 8 uuid'"
    by simp_all
  from d have "nat_of_digits (digits (nat now)) = nat_of_digits (digits (nat now'))" by simp
  then have "nat now = nat now'" by (simp only: nat_of_digits_digits)
  with assms u show "now = now' \<and> take 8 uuid = take 8 uuid'" by simp
next
  assume "now = now' \<and> take 8 uuid = take 8 uuid'"
  then show "generateJobId now uuid = generateJobId now' uuid'"
    by (simp add: generateJobId_def del: digits.simps)
qed

lemma example_job_id:
  "generateJobId 1700000000000 ''9f8e7d6c-1b2a-4c3d-8e4f-5a6b7c8d9e0f'' =
     ''ingest-job-1700000000000-9f8e7d6c''"
  by (simp add: generateJobId_def digit_char_def)

text \<open>
  C7, as stated: \<open>startIngestion\<close> fails, and creates no job, when the path is not a
  readable file. The code only asks whether the path exists: for a directory, and for
  a file that cannot be read, it creates the PROCESSING job and answers
  "Ingestion initiated".
\<close>

theorem C7_not_a_readable_file_counterexample:
  "\<not> readable_file (example_fs ''uploads'') \<and>
   \<not> readable_file (example_fs ''locked.txt'') \<and>
   fst (startIngestion example_fs no_faults 1700000000000
          ''9f8e7d6c-1b2a-4c3d-8e4f-5a6b7c8d9e0f'' empty_db ''uploads'') =
     Inr \<lparr> init_status = ''Ingestion initiated'',
           init_jobId = ''ingest-job-1700000000000-9f8e7d6c'',
           init_message =
             ''Check /api/events/ingestion-status/ingest-job-1700000000000-9f8e7d6c for updates.'' \<rparr> \<and>
   table (fst (snd (startIngestion example_fs no_faults 1700000000000
          ''9f8e7d6c-1b2a-4c3d-8e4f-5a6b7c8d9e0f'' empty_db ''uploads''))) =
     [\<lparr> job_id = ''ingest-job-1700000000000-9f8e7d6c'', status = PROCESSING,
        file_path = ''uploads'', total_lines = 0, processed_lines = 0, error_lines = 0,
        errors = [], start_time = 1700000000000, end_time = None \<rparr>] \<and>
   snd (snd (startIngestion example_fs no_faults 1700000000000
          ''9f8e7d6c-1b2a-4c3d-8e4f-5a6b7c8d9e0f'' empty_db ''uploads'')) =
     Some (''ingest-job-1700000000000-9f8e7d6c'', ''uploads'') \<and>
   map status (table (fst (snd (startIngestion example_fs no_faults 1700000000000
          ''9f8e7d6c-1b2a-4c3d-8e4f-5a6b7c8d9e0f'' empty_db ''locked.txt'')))) = [PROCESSING]"
  by (simp add: readable_file_def example_fs_def startIngestion_def access_def create_def
      query_def server_verdict_def key_violation_def no_faults_def empty_db_def
      or_default_def example_job_id Let_def)

text \<open>
  C7, amended. When nothing exists at the path, \<open>startIngestion\<close> fails with "Failed to
  start ingestion", sends nothing to the database and starts no task. When something
  exists there (a readable file or not), it sends one insert, of a job under the
  generated identifier, PROCESSING, with all counters zero. If the server rejects the
  insert (as it does when the identifier is already in the table or longer than the key
  column) the call fails with "Failed to start ingestion", the table is as it was and no
  task is started. If the server accepts it, the table gains that job and nothing else,
  the identifier was not in the table before, the identifier is returned, and the
  processing of the file is a task that has been started and not run: the caller gets
  its answer before any line is processed. The identifier is made of the clock and of
  the first eight characters of the random UUID, and two identifiers are equal only when
  both of these are.
\<close>

theorem C7_startIngestion:
  "(\<forall>msg. fs fp = NoEntry msg \<longrightarrow>
      startIngestion fs pg now uuid db fp =
        (Inl (''Failed to start ingestion: '' @ msg), db, None)) \<and>
   ((\<forall>msg. fs fp \<noteq> NoEntry msg) \<longrightarrow>
      (\<exists>r db'.
         snd (startIngestion fs pg now uuid db fp) =
           (db', if r = None then Some (generateJobId now uuid, fp) else None) \<and>
         history db' = history db @
           [\<lparr> table_before = table db,
              statement = InsertJob
                \<lparr> job_id = generateJobId now uuid, status = PROCESSING, file_path = fp,
                  total_lines = 0, processed_lines = 0, error_lines = 0, errors = [],
                  start_time = now, end_time = None \<rparr>,
              verdict = r, table_after = table db' \<rparr>] \<and>
         (r = None) =
           (pg (length (history db)) (table db)
              (InsertJob
                \<lparr> job_id = generateJobId now uuid, status = PROCESSING, file_path = fp,
                  total_lines = 0, processed_lines = 0, error_lines = 0, errors = [],
                  start_time = now, end_time = None \<rparr>) = None \<and>
            length (generateJobId now uuid) \<le> 50 \<and>
            generateJobId now uuid \<notin> set (map job_id (table db))) \<and>
         (\<forall>msg. r = Some msg \<longrightarrow>
            fst (startIngestion fs pg now uuid db fp) =
              Inl (''Failed to start ingestion: '' @ msg) \<and>
            table db' = table db) \<and>
         (r = None \<longrightarrow>
            fst (startIngestion fs pg now uuid db fp) =
              Inr \<lparr> init_status = ''Ingestion initiated'',
                    init_jobId = generateJobId now uuid,
                    init_message = ''Check /api/events/ingestion-status/''
                                     @ generateJobId now uuid @ '' for updates.'' \<rparr> \<and>
            table db' = table db @
              [\<lparr> job_id = generateJobId now uuid, status = PROCESSING, file_path = fp,
                 total_lines = 0, processed_lines = 0, error_lines = 0, errors = [],
                 start_time = now, end_time = None \<rparr>] \<and>
            generateJobId now uuid \<notin> set (map job_id (table db)) \<and>
            findById (table db') (generateJobId now uuid) =
              Some \<lparr> job_id = generateJobId now uuid, status = PROCESSING, file_path = fp,
                     total_lines = 0, processed_lines = 0, error_lines = 0, errors = [],
                     start_time = now, end_time = None \<rparr>))) \<and>
   (\<forall>now' uuid'. 0 \<le> now \<longrightarrow> 0 \<le> now' \<longrightarrow>
      (generateJobId now uuid = generateJobId now' uuid') =
        (now = now' \<and> take 8 uuid = take 8 uuid'))"
proof (intro conjI allI impI)
  fix msg assume "fs fp = NoEntry msg"
  then show "startIngestion fs pg now uuid db fp =
        (Inl (''Failed to start ingestion: '' @ msg), db, None)"
    by (simp add: startIngestion_def access_def)
next
  fix now' :: int and uuid' :: string
  assume "0 \<le> now" "0 \<le> now'"
  then show "(generateJobId now uuid = generateJobId now' uuid') =
        (now = now' \<and> take 8 uuid = take 8 uuid')"
    by (rule generateJobId_inj)
next
  let ?id = "generateJobId now uuid"
  let ?job = "\<lparr> job_id = ?id, status = PROCESSING, file_path = fp,
                 total_lines = 0, processed_lines = 0, error_lines = 0, errors = [],
                 start_time = now, end_time = None \<rparr>"
  let ?start = "startIngestion fs pg now uuid db fp"
  assume ex: "\<forall>msg. fs fp \<noteq> NoEntry msg"
  then have a: "access fs fp = None"
    by (cases "fs fp") (simp_all add: access_def)
  obtain r db' where q: "query pg db (InsertJob ?job) = (r, db')"
    by (cases "query pg db (InsertJob ?job)")
  have cr: "create pg now db \<lparr> data_job_id = ?id, data_status = Some PROCESSING,
                                   data_file_path = fp, data_total_lines = None,
                                   data_processed_lines = None, data_error_lines = None,
                                   data_errors = None, data_start_time = None \<rparr> =
              (case r of Some msg \<Rightarrow> Inl msg | None \<Rightarrow> Inr ?job, db')"
    using q by (cases r) (simp_all add: create_def or_default_def Let_def)
  have v: "r = server_verdict pg db (InsertJob ?job)" by (rule query_result(1) [OF q])
  have acc: "(r = None) =
           (pg (length (history db)) (table db) (InsertJob ?job) = None \<and>
            length ?id \<le> 50 \<and> ?id \<notin> set (map job_id (table db)))"
    unfolding v by (auto simp: server_verdict_def key_violation_def split: option.splits)
  have tb: "table db' = (case r of None \<Rightarrow> table db @ [?job] | Some m \<Rightarrow> table db)"
    using query_result(2) [OF q] by (cases r) simp_all
  have 1: "snd ?start = (db', if r = None then Some (?id, fp) else None)"
    using a cr by (cases r) (simp_all add: startIngestion_def Let_def)
  have 2: "history db' = history db @
           [\<lparr> table_before = table db, statement = InsertJob ?job,
              verdict = r, table_after = table db' \<rparr>]"
    by (rule query_result(3) [OF q])
  have 4: "fst ?start = Inl (''Failed to start ingestion: '' @ msg) \<and> table db' = table db"
    if "r = Some msg" for msg
    using that a cr tb by (simp add: startIngestion_def Let_def)
  have 5: "fst ?start =
              Inr \<lparr> init_status = ''Ingestion initiated'', init_jobId = ?id,
                    init_message = ''Check /api/events/ingestion-status/''
                                     @ ?id @ '' for updates.'' \<rparr> \<and>
            table db' = table db @ [?job] \<and>
            ?id \<notin> set (map job_id (table db)) \<and>
            findById (table db') ?id = Some ?job"
    if n: "r = None"
  proof -
    from n acc have fresh: "?id \<notin> set (map job_id (table db))" by simp
    from n tb have t: "table db' = table db @ [?job]" by simp
    have "findById (table db @ [?job]) ?id = Some ?job"
      using fresh by (intro findById_append_new) simp_all
    with n a cr t fresh show ?thesis by (simp add: startIngestion_def Let_def)
  qed
  show "\<exists>r db'.
         snd ?start = (db', if r = None then Some (?id, fp) else None) \<and>
         history db' = history db @
           [\<lparr> table_before = table db, statement = InsertJob ?job,
              verdict = r, table_after = table db' \<rparr>] \<and>
         (r = None) =
           (pg (length (history db)) (table db) (InsertJob ?job) = None \<and>
            length ?id \<le> 50 \<and> ?id \<notin> set (map job_id (table db))) \<and>
         (\<forall>msg. r = Some msg \<longrightarrow>
            fst ?start = Inl (''Failed to start ingestion: '' @ msg) \<and> table db' = table db) \<and>
         (r = None \<longrightarrow>
            fst ?start =
              Inr \<lparr> init_status = ''Ingestion initiated'', init_jobId = ?id,
                    init_message = ''Check /api/events/ingestion-status/''
                                     @ ?id @ '' for updates.'' \<rparr> \<and>
            table db' = table db @ [?job] \<and>
            ?id \<notin> set (map job_id (table db)) \<and>
            findById (table db') ?id = Some ?job)"
    using 1 2 acc 4 5 by (intro exI [of _ r] exI [of _ db']) blast
qed

text \<open>
  C7 on a missing path and on an existing file, and the identifiers of two calls one
  millisecond apart.
\<close>

theorem C7_startIngestion_witness:
  "example_fs ''missing.txt'' = NoEntry ''ENOENT: no such file or directory'' \<and>
   startIngestion example_fs no_faults 1700000000000 ''9f8e7d6c-1b2a-4c3d-8e4f-5a6b7c8d9e0f''
       example_db ''missing.txt'' =
     (Inl ''Failed to start ingestion: ENOENT: no such file or directory'', example_db, None) \<and>
   (\<forall>msg. example_fs ''events.txt'' \<noteq> NoEntry msg) \<and>
   (\<exists>db'. startIngestion example_fs no_faults 1700000000000
             ''9f8e7d6c-1b2a-4c3d-8e4f-5a6b7c8d9e0f'' example_db ''events.txt'' =
             (Inr \<lparr> init_status = ''Ingestion initiated'',
                    init_jobId = ''ingest-job-1700000000000-9f8e7d6c'',
                    init_message =
                      ''Check /api/events/ingestion-status/ingest-job-1700000000000-9f8e7d6c for updates.'' \<rparr>,
              db', Some (''ingest-job-1700000000000-9f8e7d6c'', ''events.txt'')) \<and>
           table db' =
             [example_job,
              \<lparr> job_id = ''ingest-job-1700000000000-9f8e7d6c'', status = PROCESSING,
                file_path = ''events.txt'', total_lines = 0, processed_lines = 0,
                error_lines = 0, errors = [], start_time = 1700000000000, end_time = None \<rparr>]) \<and>
   generateJobId 1700000000000 ''9f8e7d6c-1b2a-4c3d-8e4f-5a6b7c8d9e0f'' \<noteq>
     generateJobId 1700000000001 ''9f8e7d6c-1b2a-4c3d-8e4f-5a6b7c8d9e0f''"
proof -
  let ?u = "''9f8e7d6c-1b2a-4c3d-8e4f-5a6b7c8d9e0f''"
  let ?id = "''ingest-job-1700000000000-9f8e7d6c''"
  let ?job = "\<lparr> job_id = ?id, status = PROCESSING,
                file_path = ''events.txt'', total_lines = 0, processed_lines = 0,
                error_lines = 0, errors = [], start_time = 1700000000000, end_time = None \<rparr>"
  have m: "example_fs ''missing.txt'' = NoEntry ''ENOENT: no such file or directory''"
    and e: "\<forall>msg. example_fs ''events.txt'' \<noteq> NoEntry msg"
    by (simp_all add: example_fs_def)
  note c7m = C7_startIngestion [of example_fs "''missing.txt''" no_faults 1700000000000 ?u
      example_db]
  note c7e = C7_startIngestion [of example_fs "''events.txt''" no_faults 1700000000000 ?u
      example_db]
  from c7m m
  have 1: "startIngestion example_fs no_faults 1700000000000 ?u example_db ''missing.txt'' =
     (Inl ''Failed to start ingestion: ENOENT: no such file or directory'', example_db, None)"
    by simp
  have ok: "no_faults (length (history example_db)) (table example_db) (InsertJob ?job) = None"
    "length ?id \<le> 50" "?id \<notin> set (map job_id (table example_db))"
    by (simp_all add: no_faults_def example_db_def example_job_def)
  from c7e e ok
  have 2: "\<exists>db'. startIngestion example_fs no_faults 1700000000000 ?u example_db ''events.txt'' =
             (Inr \<lparr> init_status = ''Ingestion initiated'', init_jobId = ?id,
                    init_message =
                      ''Check /api/events/ingestion-status/ingest-job-1700000000000-9f8e7d6c for updates.'' \<rparr>,
              db', Some (?id, ''events.txt'')) \<and>
           table db' = [example_job, ?job]"
    unfolding example_job_id
    by (cases "startIngestion example_fs no_faults 1700000000000 ?u example_db ''events.txt''")
       (auto simp: example_db_def)
  from c7e
  have 3: "generateJobId 1700000000000 ?u \<noteq> generateJobId 1700000000001 ?u"
    by simp
  from m 1 e 2 3 show ?thesis by blast
qed

subsection \<open>Reading a job's status (C9)\<close>




subsection \<open>Status transitions (C8)\<close>

lemma startIngestion_keeps:
  assumes "findById (table db) k = Some j"
  shows "findById (table (fst (snd (startIngestion fs pg now uuid db fp)))) k = Some j"
proof (cases "access fs fp")
  case (Some msg)
  with assms show ?thesis by (simp add: startIngestion_def)
next
  case None
  let ?job = "\<lparr> job_id = generateJobId now uuid, status = PROCESSING, file_path = fp,
                 total_lines = 0, processed_lines = 0, error_lines = 0, errors = [],
                 start_time = now, end_time = None \<rparr>"
  obtain r db' where q: "query pg db (InsertJob ?job) = (r, db')"
    by (cases "query pg db (InsertJob ?job)")
  have tb: "findById (table db') k = Some j"
    using query_result(2) [OF q] assms by (cases r) (simp_all add: findById_append_old)
  have "fst (snd (startIngestion fs pg now uuid db fp)) = db'"
    using None q by (cases r) (simp_all add: startIngestion_def create_def or_default_def Let_def)
  with tb show ?thesis by simp
qed



section \<open>Properties of the interval analytics\<close>

subsection \<open>Overlap detector\<close>

lemma overlap_pos_iff:
  "(start_date e1 < end_date e2 \<and> start_date e2 < end_date e1 \<and> overlap e1 e2 > 0) =
   (max (start_date e1) (start_date e2) < min (end_date e1) (end_date e2))"
  by (auto simp: overlap_def)

lemma set_overlap_rows:
  "set (overlap_rows rows) =
     {(e1, e2, d). e1 \<in> set rows \<and> e2 \<in> set rows \<and> event_id e1 < event_id e2 \<and>
        max (start_date e1) (start_date e2) < min (end_date e1) (end_date e2) \<and>
        d = overlap e1 e2}"
  unfolding overlap_rows_def overlap_pos_iff by auto

lemma round_minutes_mono: "a \<le> b \<Longrightarrow> round_minutes a \<le> round_minutes b"
  by (simp add: round_minutes_def zdiv_mono1)

lemma round_minutes_nonneg: "0 \<le> a \<Longrightarrow> 0 \<le> round_minutes a"
  by (simp add: round_minutes_def)

lemma sorted_overlap_rows:
  "sorted_wrt (\<lambda>(a1, a2, d) (b1, b2, d'). d \<ge> d') (overlap_rows rows)"
proof -
  have "sorted (map (\<lambda>(e1, e2, d). - d) (overlap_rows rows))"
    unfolding overlap_rows_def by (rule sorted_sort_key)
  then have "sorted_wrt (\<lambda>x y. (\<lambda>(e1, e2, d). - d) x \<le> (\<lambda>(e1, e2, d). - d) y) (overlap_rows rows)"
    by (simp add: sorted_map)
  then show ?thesis
    by (rule sorted_wrt_mono_rel [rotated]) auto
qed

lemma distinct_rows: "distinct (map event_id rows) \<Longrightarrow> distinct rows"
  by (simp add: distinct_map)

lemma same_id_same_row:
  "distinct (map event_id rows) \<Longrightarrow> a \<in> set rows \<Longrightarrow> b \<in> set rows \<Longrightarrow>
     event_id a = event_id b \<Longrightarrow> a = b"
  by (meson distinct_map inj_onD)

lemma distinct_concat_map:
  assumes "distinct xs"
    and "\<And>x. x \<in> set xs \<Longrightarrow> distinct (f x)"
    and "\<And>x y. x \<in> set xs \<Longrightarrow> y \<in> set xs \<Longrightarrow> x \<noteq> y \<Longrightarrow> set (f x) \<inter> set (f y) = {}"
  shows "distinct (concat (map f xs))"
  using assms
proof (induction xs)
  case Nil
  show ?case by simp
next
  case (Cons x xs)
  have "distinct (concat (map f xs))"
    using Cons by simp
  moreover have "distinct (f x)" using Cons.prems by simp
  moreover have "set (f x) \<inter> set (concat (map f xs)) = {}"
  proof -
    have "set (f x) \<inter> set (f y) = {}" if "y \<in> set xs" for y
    proof -
      from that Cons.prems(1) have "x \<noteq> y" by auto
      with that show ?thesis by (intro Cons.prems(3)) simp_all
    qed
    then show ?thesis by auto
  qed
  ultimately show ?case by simp
qed

lemma distinct_overlap_rows:
  assumes "distinct (map event_id rows)"
  shows "distinct (overlap_rows rows)"
proof -
  have d: "distinct rows" using assms by (rule distinct_rows)
  let ?P = "\<lambda>e1 e2. event_id e1 < event_id e2 \<and>
                          start_date e1 < end_date e2 \<and> start_date e2 < end_date e1 \<and>
                          overlap e1 e2 > 0"
  let ?inner = "\<lambda>e1. map (\<lambda>e2. (e1, e2, overlap e1 e2)) (filter (?P e1) rows)"
  have "distinct (concat (map ?inner rows))"
  proof (rule distinct_concat_map [OF d])
    fix e1
    show "distinct (?inner e1)"
      using d by (simp add: distinct_map inj_on_def)
  next
    fix a b :: event_row assume "a \<noteq> b"
    then show "set (?inner a) \<inter> set (?inner b) = {}" by auto
  qed
  then show ?thesis by (simp add: overlap_rows_def)
qed

lemma pairs_of_results:
  "map overlappingEventPairs (findOverlappingEvents rows) =
     map (\<lambda>(e1, e2, d). (event_ref_of e1, event_ref_of e2)) (overlap_rows rows)"
  by (simp add: findOverlappingEvents_def comp_def case_prod_unfold)

lemma distinct_pairs:
  assumes "distinct (map event_id rows)"
  shows "distinct (map overlappingEventPairs (findOverlappingEvents rows))"
proof -
  have "inj_on (\<lambda>(e1, e2, d). (event_ref_of e1, event_ref_of e2)) (set (overlap_rows rows))"
  proof (rule inj_onI)
    fix x y
    assume x: "x \<in> set (overlap_rows rows)" and y: "y \<in> set (overlap_rows rows)"
      and eq: "(\<lambda>(e1, e2, d). (event_ref_of e1, event_ref_of e2)) x =
               (\<lambda>(e1, e2, d). (event_ref_of e1, event_ref_of e2)) y"
    obtain a1 a2 d where xx: "x = (a1, a2, d)" by (cases x)
    obtain b1 b2 d' where yy: "y = (b1, b2, d')" by (cases y)
    from x xx have ax: "a1 \<in> set rows" "a2 \<in> set rows" "d = overlap a1 a2"
      by (simp_all add: set_overlap_rows)
    from y yy have bx: "b1 \<in> set rows" "b2 \<in> set rows" "d' = overlap b1 b2"
      by (simp_all add: set_overlap_rows)
    from eq xx yy have "event_id a1 = event_id b1" "event_id a2 = event_id b2"
      by (simp_all add: event_ref_of_def)
    with ax bx assms have "a1 = b1" "a2 = b2"
      by (auto intro: same_id_same_row)
    with ax bx xx yy show "x = y" by simp
  qed
  with distinct_overlap_rows [OF assms] show ?thesis
    by (simp add: pairs_of_results distinct_map)
qed




subsection \<open>Gap finder\<close>

lemma set_gaps:
  "set (gaps xs) =
     {(xs ! i, xs ! Suc i, start_date (xs ! Suc i) - end_date (xs ! i)) | i. Suc i < length xs}"
proof -
  have "set (zip xs (tl xs)) = {(xs ! i, xs ! Suc i) | i. Suc i < length xs}"
    by (auto simp: set_zip nth_tl)
  then show ?thesis
    by (auto simp: gaps_def)
qed

lemma set_gap_rows:
  "set (gap_rows ws we rows) =
     {g \<in> set (gaps (ordered_events ws we rows)). snd (snd g) > 0}"
  by (auto simp: gap_rows_def)

lemma gap_rows_head_max:
  assumes "gap_rows ws we rows = (p, s, d) # rest" and "(p', s', d') \<in> set (gap_rows ws we rows)"
  shows "d' \<le> d"
proof -
  have "sorted (map (\<lambda>(p, s, d). - d) (gap_rows ws we rows))"
    unfolding gap_rows_def by (rule sorted_sort_key)
  with assms show ?thesis by auto
qed

lemma set_ordered_events:
  "set (ordered_events ws we rows) = {e \<in> set rows. ws \<le> start_date e \<and> end_date e \<le> we}"
  by (auto simp: ordered_events_def)

lemma length_ordered_events:
  "length (ordered_events ws we rows) =
     length (filter (\<lambda>e. ws \<le> start_date e \<and> end_date e \<le> we) rows)"
  by (simp add: ordered_events_def)

lemma sorted_ordered_events: "sorted (map start_date (ordered_events ws we rows))"
  by (simp add: ordered_events_def)

lemma no_gap_iff:
  "(gap_rows ws we rows = []) =
     (\<forall>i. Suc i < length (ordered_events ws we rows) \<longrightarrow>
        start_date (ordered_events ws we rows ! Suc i) \<le> end_date (ordered_events ws we rows ! i))"
proof
  let ?oe = "ordered_events ws we rows"
  assume e: "gap_rows ws we rows = []"
  show "\<forall>i. Suc i < length ?oe \<longrightarrow> start_date (?oe ! Suc i) \<le> end_date (?oe ! i)"
  proof (intro allI impI)
    fix i assume i: "Suc i < length ?oe"
    then have m: "(?oe ! i, ?oe ! Suc i, start_date (?oe ! Suc i) - end_date (?oe ! i)) \<in> set (gaps ?oe)"
      unfolding set_gaps by blast
    have "\<not> 0 < start_date (?oe ! Suc i) - end_date (?oe ! i)"
    proof
      assume "0 < start_date (?oe ! Suc i) - end_date (?oe ! i)"
      with m have "(?oe ! i, ?oe ! Suc i, start_date (?oe ! Suc i) - end_date (?oe ! i))
                     \<in> set (gap_rows ws we rows)"
        by (simp add: set_gap_rows)
      with e show False by simp
    qed
    then show "start_date (?oe ! Suc i) \<le> end_date (?oe ! i)" by simp
  qed
next
  let ?oe = "ordered_events ws we rows"
  assume a: "\<forall>i. Suc i < length ?oe \<longrightarrow> start_date (?oe ! Suc i) \<le> end_date (?oe ! i)"
  have "set (gap_rows ws we rows) = {}"
    unfolding set_gap_rows set_gaps using a by fastforce
  then show "gap_rows ws we rows = []" by simp
qed

lemma largest_gap_found:
  assumes "gap_rows ws we rows = (p, s, d) # rest"
  shows "\<exists>i. Suc i < length (ordered_events ws we rows) \<and>
            p = ordered_events ws we rows ! i \<and> s = ordered_events ws we rows ! Suc i \<and>
            d = start_date s - end_date p \<and> 0 < d \<and>
            (\<forall>k. Suc k < length (ordered_events ws we rows) \<longrightarrow>
               start_date (ordered_events ws we rows ! Suc k)
                 - end_date (ordered_events ws we rows ! k) \<le> d)"
proof -
  let ?oe = "ordered_events ws we rows"
  from assms have "(p, s, d) \<in> set (gap_rows ws we rows)" by simp
  then obtain i where i: "Suc i < length ?oe" "p = ?oe ! i" "s = ?oe ! Suc i"
    "d = start_date (?oe ! Suc i) - end_date (?oe ! i)" and pos: "0 < d"
    unfolding set_gap_rows set_gaps by auto
  have "start_date (?oe ! Suc k) - end_date (?oe ! k) \<le> d" if k: "Suc k < length ?oe" for k
  proof (cases "0 < start_date (?oe ! Suc k) - end_date (?oe ! k)")
    case True
    with k have "(?oe ! k, ?oe ! Suc k, start_date (?oe ! Suc k) - end_date (?oe ! k))
                   \<in> set (gap_rows ws we rows)"
      unfolding set_gap_rows set_gaps by auto
    from gap_rows_head_max [OF assms this] show ?thesis .
  next
    case False
    with pos show ?thesis by simp
  qed
  with i pos show ?thesis by auto
qed

text \<open>
  C6: \<open>findTemporalGaps\<close> works on the events inside the window, sorted by
  \<open>start_date\<close>. It reports no gap exactly when no event of that sequence starts after
  the end of the one before it, in particular when fewer than two events qualify, and
  that answer is a result with a message, not an error. Otherwise it reports one gap:
  between two consecutive events of the sequence, from the end of the first to the later
  start of the second, at least as long as the gap of every other consecutive pair, with
  the two events and the duration in minutes (rounded).
\<close>

theorem C6_largest_gap:
  "set (ordered_events ws we rows) = {e \<in> set rows. ws \<le> start_date e \<and> end_date e \<le> we} \<and>
   sorted (map start_date (ordered_events ws we rows)) \<and>
   ((largestGap (findTemporalGaps ws we rows) = None) =
      (\<forall>i. Suc i < length (ordered_events ws we rows) \<longrightarrow>
         start_date (ordered_events ws we rows ! Suc i)
           \<le> end_date (ordered_events ws we rows ! i))) \<and>
   (length (filter (\<lambda>e. ws \<le> start_date e \<and> end_date e \<le> we) rows) < 2 \<longrightarrow>
      findTemporalGaps ws we rows =
        \<lparr> largestGap = None,
          gap_message = ''No significant temporal gaps found within the specified range, or too few events.'' \<rparr>) \<and>
   (\<forall>g. largestGap (findTemporalGaps ws we rows) = Some g \<longrightarrow>
      (\<exists>i. Suc i < length (ordered_events ws we rows) \<and>
         precedingEvent g =
           \<lparr> gap_event_id = event_id (ordered_events ws we rows ! i),
             gap_event_name = event_name (ordered_events ws we rows ! i),
             gap_event_date = end_date (ordered_events ws we rows ! i) \<rparr> \<and>
         succeedingEvent g =
           \<lparr> gap_event_id = event_id (ordered_events ws we rows ! Suc i),
             gap_event_name = event_name (ordered_events ws we rows ! Suc i),
             gap_event_date = start_date (ordered_events ws we rows ! Suc i) \<rparr> \<and>
         startOfGap g = end_date (ordered_events ws we rows ! i) \<and>
         endOfGap g = start_date (ordered_events ws we rows ! Suc i) \<and>
         startOfGap g < endOfGap g \<and>
         durationMinutes g = round_minutes (endOfGap g - startOfGap g) \<and>
         (\<forall>k. Suc k < length (ordered_events ws we rows) \<longrightarrow>
            start_date (ordered_events ws we rows ! Suc k)
              - end_date (ordered_events ws we rows ! k) \<le> endOfGap g - startOfGap g)))"
proof (intro conjI allI impI)
  let ?oe = "ordered_events ws we rows"
  show "set ?oe = {e \<in> set rows. ws \<le> start_date e \<and> end_date e \<le> we}"
    by (rule set_ordered_events)
  show "sorted (map start_date ?oe)" by (rule sorted_ordered_events)
  have none: "(largestGap (findTemporalGaps ws we rows) = None) = (gap_rows ws we rows = [])"
    by (auto simp: findTemporalGaps_def split: list.splits)
  show "(largestGap (findTemporalGaps ws we rows) = None) =
      (\<forall>i. Suc i < length ?oe \<longrightarrow> start_date (?oe ! Suc i) \<le> end_date (?oe ! i))"
    unfolding none by (rule no_gap_iff)
  {
    assume "length (filter (\<lambda>e. ws \<le> start_date e \<and> end_date e \<le> we) rows) < 2"
    then have "length ?oe < 2" by (simp add: length_ordered_events)
    then have "gap_rows ws we rows = []"
      unfolding no_gap_iff by auto
    then show "findTemporalGaps ws we rows =
        \<lparr> largestGap = None,
          gap_message = ''No significant temporal gaps found within the specified range, or too few events.'' \<rparr>"
      by (simp add: findTemporalGaps_def)
  }
  {
    fix g assume g: "largestGap (findTemporalGaps ws we rows) = Some g"
    then obtain p s d rest where rows: "gap_rows ws we rows = (p, s, d) # rest"
      by (auto simp: findTemporalGaps_def split: list.splits)
    with g have gg: "g = \<lparr> startOfGap = end_date p, endOfGap = start_date s,
                durationMinutes = round_minutes d,
                precedingEvent =
                  \<lparr> gap_event_id = event_id p, gap_event_name = event_name p,
                    gap_event_date = end_date p \<rparr>,
                succeedingEvent =
                  \<lparr> gap_event_id = event_id s, gap_event_name = event_name s,
                    gap_event_date = start_date s \<rparr> \<rparr>"
      by (simp add: findTemporalGaps_def)
    from largest_gap_found [OF rows]
    obtain i where i: "Suc i < length ?oe" "p = ?oe ! i" "s = ?oe ! Suc i"
      "d = start_date s - end_date p" "0 < d"
      "\<And>k. Suc k < length ?oe \<Longrightarrow> start_date (?oe ! Suc k) - end_date (?oe ! k) \<le> d"
      by blast
    show "\<exists>i. Suc i < length ?oe \<and>
         precedingEvent g =
           \<lparr> gap_event_id = event_id (?oe ! i), gap_event_name = event_name (?oe ! i),
             gap_event_date = end_date (?oe ! i) \<rparr> \<and>
         succeedingEvent g =
           \<lparr> gap_event_id = event_id (?oe ! Suc i), gap_event_name = event_name (?oe ! Suc i),
             gap_event_date = start_date (?oe ! Suc i) \<rparr> \<and>
         startOfGap g = end_date (?oe ! i) \<and>
         endOfGap g = start_date (?oe ! Suc i) \<and>
         startOfGap g < endOfGap g \<and>
         durationMinutes g = round_minutes (endOfGap g - startOfGap g) \<and>
         (\<forall>k. Suc k < length ?oe \<longrightarrow>
            start_date (?oe ! Suc k) - end_date (?oe ! k) \<le> endOfGap g - startOfGap g)"
      using i gg by (intro exI [of _ i]) auto
  }
qed

text \<open>
  C6 on the scenario of the specification, in a window from 09:00 to 13:00: one event
  alone, no gap; a second event starting at 10:30, before the first ends at 11:00, no
  gap; the second event starting at 11:30 instead, a gap of exactly 30 minutes between
  the two.
\<close>

theorem C6_largest_gap_witness:
  "length (filter (\<lambda>e. 1672563600000 \<le> start_date e \<and> end_date e \<le> 1672578000000) [gap_E1]) < 2 \<and>
   largestGap (findTemporalGaps 1672563600000 1672578000000 [gap_E1]) = None \<and>
   largestGap (findTemporalGaps 1672563600000 1672578000000 [gap_E2, gap_E1]) = None \<and>
   largestGap (findTemporalGaps 1672563600000 1672578000000 [gap_E2_late, gap_E1]) =
     Some \<lparr> startOfGap = 1672570800000, endOfGap = 1672572600000, durationMinutes = 30,
            precedingEvent =
              \<lparr> gap_event_id = event_id gap_E1, gap_event_name = ''Morning session'',
                gap_event_date = 1672570800000 \<rparr>,
            succeedingEvent =
              \<lparr> gap_event_id = event_id gap_E2_late, gap_event_name = ''Review'',
                gap_event_date = 1672572600000 \<rparr> \<rparr>"
proof -
  have h: "length (filter (\<lambda>e. 1672563600000 \<le> start_date e \<and> end_date e \<le> 1672578000000)
             [gap_E1]) < 2"
    by simp
  from C6_largest_gap [of 1672563600000 1672578000000 "[gap_E1]"] h
  have one: "largestGap (findTemporalGaps 1672563600000 1672578000000 [gap_E1]) = None"
    by simp
  have oe: "ordered_events 1672563600000 1672578000000 [gap_E2, gap_E1] = [gap_E1, gap_E2]"
    by (simp add: ordered_events_def gap_E1_def gap_E2_def)
  have "\<forall>i. Suc i < length [gap_E1, gap_E2] \<longrightarrow>
          start_date ([gap_E1, gap_E2] ! Suc i) \<le> end_date ([gap_E1, gap_E2] ! i)"
    by (simp add: gap_E1_def gap_E2_def)
  with C6_largest_gap [of 1672563600000 1672578000000 "[gap_E2, gap_E1]"] oe
  have two: "largestGap (findTemporalGaps 1672563600000 1672578000000 [gap_E2, gap_E1]) = None"
    by simp
  have three: "largestGap (findTemporalGaps 1672563600000 1672578000000 [gap_E2_late, gap_E1]) =
     Some \<lparr> startOfGap = 1672570800000, endOfGap = 1672572600000, durationMinutes = 30,
            precedingEvent =
              \<lparr> gap_event_id = event_id gap_E1, gap_event_name = ''Morning session'',
                gap_event_date = 1672570800000 \<rparr>,
            succeedingEvent =
              \<lparr> gap_event_id = event_id gap_E2_late, gap_event_name = ''Review'',
                gap_event_date = 1672572600000 \<rparr> \<rparr>"
    by (simp add: findTemporalGaps_def gap_rows_def gaps_def ordered_events_def round_minutes_def
        gap_E1_def gap_E2_late_def)
  from h one two three show ?thesis by blast
qed

section \<open>Properties of the shortest-path engine\<close>

lemma sort_key_single [simp]: "sort_key f [x] = [x]" by simp

lemma build_details_snoc:
  "build_details (xs @ [x]) = AList.update (event_id x) x (build_details xs)"
  by (simp add: build_details_def)

lemma map_of_build_details:
  "distinct (map event_id rows) \<Longrightarrow> e \<in> set rows \<Longrightarrow>
     map_of (build_details rows) (event_id e) = Some e"
proof (induction rows rule: rev_induct)
  case Nil
  then show ?case by simp
next
  case (snoc x xs)
  show ?case
  proof (cases "e = x")
    case True
    then show ?thesis by (simp add: build_details_snoc update_conv')
  next
    case False
    with snoc.prems have ex: "e \<in> set xs" by simp
    then have "event_id e \<in> event_id ` set xs" by (rule imageI)
    moreover from snoc.prems have "event_id x \<notin> event_id ` set xs" by simp
    ultimately have "event_id e \<noteq> event_id x" by metis
    note ex this
    with snoc show ?thesis by (simp add: build_details_snoc update_conv')
  qed
qed

lemma self_path:
  assumes "map_of (build_details rows) k = Some e"
  shows "findShortestPath rows k k =
           Some (Inr \<lparr> sourceEventId = k, targetEventId = k,
                        shortestPath = [path_entry_of e],
                        totalDurationMinutes = duration_minutes e,
                        message = ''Shortest temporal path found from source to target event.'' \<rparr>)"
proof -
  let ?s0 = "\<lparr> distances = initial_distances rows k, previous = [],
                 visited = {}, queue = [(k, 0)] \<rparr>"
  have loop: "dijkstra_loop (build_graph rows) (build_details rows) k ?s0 =
          Inr (?s0\<lparr>queue := [], visited := {k}\<rparr>)"
    by (subst dijkstra_loop.simps) simp
  have rec: "reconstruct (build_details rows) [] k [] = Some (Inr [path_entry_of e])"
    by (subst reconstruct.simps) (simp add: assms)
  show ?thesis
    by (simp add: findShortestPath_def Let_def loop rec path_entry_of_def)
qed

lemma chain_forward:
  assumes ids: "event_id A \<noteq> event_id B" "event_id B \<noteq> event_id C" "event_id A \<noteq> event_id C"
    and par: "parent_event_id A = None" "parent_event_id B = Some (event_id A)"
      "parent_event_id C = Some (event_id B)"
    and rows: "rows \<in> {[A, B, C], [A, C, B], [B, A, C], [B, C, A], [C, A, B], [C, B, A]}"
  shows "findShortestPath rows (event_id A) (event_id C) =
           Some (Inr \<lparr> sourceEventId = event_id A, targetEventId = event_id C,
                        shortestPath = [path_entry_of A, path_entry_of B, path_entry_of C],
                        totalDurationMinutes =
                          duration_minutes A + duration_minutes B + duration_minutes C,
                        message = ''Shortest temporal path found from source to target event.'' \<rparr>)"
proof -
  note ids' = ids ids [symmetric]
  from rows show ?thesis
    by (elim insertE emptyE; simp add: findShortestPath_def build_graph_def add_event_def
        build_details_def initial_distances_def dijkstra_loop.simps neighbors_def
        reconstruct.simps path_entry_of_def Let_def ids' par)
qed

lemma chain_backward:
  assumes ids: "event_id A \<noteq> event_id B" "event_id B \<noteq> event_id C" "event_id A \<noteq> event_id C"
    and par: "parent_event_id A = None" "parent_event_id B = Some (event_id A)"
      "parent_event_id C = Some (event_id B)"
    and rows: "rows \<in> {[A, B, C], [A, C, B], [B, A, C], [B, C, A], [C, A, B], [C, B, A]}"
  shows "findShortestPath rows (event_id C) (event_id A) =
           Some (Inr \<lparr> sourceEventId = event_id C, targetEventId = event_id A,
                        shortestPath = [], totalDurationMinutes = 0,
                        message = ''No temporal path found from source to target event.'' \<rparr>)"
proof -
  note ids' = ids ids [symmetric]
  from rows show ?thesis
    by (elim insertE emptyE; simp add: findShortestPath_def build_graph_def add_event_def
        build_details_def initial_distances_def dijkstra_loop.simps neighbors_def
        reconstruct.simps path_entry_of_def Let_def ids' par)
qed

lemma chain_ids:
  "event_id chain_A \<noteq> event_id chain_B" "event_id chain_B \<noteq> event_id chain_C"
  "event_id chain_A \<noteq> event_id chain_C"
  by (simp_all add: chain_A_def chain_B_def chain_C_def)

lemma chain_parents:
  "parent_event_id chain_A = None" "parent_event_id chain_B = Some (event_id chain_A)"
  "parent_event_id chain_C = Some (event_id chain_B)"
  by (simp_all add: chain_A_def chain_B_def chain_C_def)

text \<open>
  C1, as stated: the cumulative weight of the path A, B, C is exactly 30. With A lasting
  90 minutes the code reports 120: \<open>totalDurationMinutes\<close> is the sum of
  \<open>duration_minutes\<close> over every node of the path, the source included.
\<close>

theorem C1_total_includes_source_counterexample:
  "\<exists>r. findShortestPath [chain_A, chain_B, chain_C] (event_id chain_A) (event_id chain_C)
          = Some (Inr r) \<and>
       map entry_duration_minutes (shortestPath r) = [90, 10, 20] \<and>
       totalDurationMinutes r = 120 \<and> totalDurationMinutes r \<noteq> 30"
proof -
  have "findShortestPath [chain_A, chain_B, chain_C] (event_id chain_A) (event_id chain_C) =
           Some (Inr \<lparr> sourceEventId = event_id chain_A, targetEventId = event_id chain_C,
                        shortestPath = [path_entry_of chain_A, path_entry_of chain_B,
                                        path_entry_of chain_C],
                        totalDurationMinutes =
                          duration_minutes chain_A + duration_minutes chain_B
                            + duration_minutes chain_C,
                        message = ''Shortest temporal path found from source to target event.'' \<rparr>)"
    by (rule chain_forward [OF chain_ids chain_parents]) simp
  then show ?thesis
    by (simp add: path_entry_of_def chain_A_def chain_B_def chain_C_def)
qed

text \<open>
  C1, amended: for every event set that is a chain A, B, C (A a root, B the child of A,
  C the child of B, in whatever order the rows come) with B lasting 10 minutes and C 20,
  \<open>findShortestPath\<close> from A to C returns the node sequence A, B, C and as
  \<open>totalDurationMinutes\<close> the duration of A plus 30; from C to A it returns the
  "no path" result, an empty path with total 0.
\<close>

theorem C1_chain_path:
  assumes "event_id A \<noteq> event_id B" "event_id B \<noteq> event_id C" "event_id A \<noteq> event_id C"
    and "parent_event_id A = None" "parent_event_id B = Some (event_id A)"
      "parent_event_id C = Some (event_id B)"
    and "duration_minutes B = 10" "duration_minutes C = 20"
    and "rows \<in> {[A, B, C], [A, C, B], [B, A, C], [B, C, A], [C, A, B], [C, B, A]}"
  shows "findShortestPath rows (event_id A) (event_id C) =
           Some (Inr \<lparr> sourceEventId = event_id A, targetEventId = event_id C,
                        shortestPath = [path_entry_of A, path_entry_of B, path_entry_of C],
                        totalDurationMinutes = duration_minutes A + 30,
                        message = ''Shortest temporal path found from source to target event.'' \<rparr>) \<and>
         findShortestPath rows (event_id C) (event_id A) =
           Some (Inr \<lparr> sourceEventId = event_id C, targetEventId = event_id A,
                        shortestPath = [], totalDurationMinutes = 0,
                        message = ''No temporal path found from source to target event.'' \<rparr>)"
  using chain_forward [OF assms(1-6) assms(9)] chain_backward [OF assms(1-6) assms(9)] assms(7,8)
  by simp

text \<open>C1 on the example chain, its rows in the order C, A, B: the total is 90 + 30.\<close>

theorem C1_chain_path_witness:
  "event_id chain_A \<noteq> event_id chain_B \<and> event_id chain_B \<noteq> event_id chain_C \<and>
   event_id chain_A \<noteq> event_id chain_C \<and>
   parent_event_id chain_A = None \<and> parent_event_id chain_B = Some (event_id chain_A) \<and>
   parent_event_id chain_C = Some (event_id chain_B) \<and>
   duration_minutes chain_B = 10 \<and> duration_minutes chain_C = 20 \<and>
   findShortestPath [chain_C, chain_A, chain_B] (event_id chain_A) (event_id chain_C) =
     Some (Inr \<lparr> sourceEventId = event_id chain_A, targetEventId = event_id chain_C,
                  shortestPath = [path_entry_of chain_A, path_entry_of chain_B, path_entry_of chain_C],
                  totalDurationMinutes = 120,
                  message = ''Shortest temporal path found from source to target event.'' \<rparr>) \<and>
   findShortestPath [chain_C, chain_A, chain_B] (event_id chain_C) (event_id chain_A) =
     Some (Inr \<lparr> sourceEventId = event_id chain_C, targetEventId = event_id chain_A,
                  shortestPath = [], totalDurationMinutes = 0,
                  message = ''No temporal path found from source to target event.'' \<rparr>)"
proof -
  have d: "duration_minutes chain_B = 10" "duration_minutes chain_C = 20"
    "duration_minutes chain_A = 90"
    by (simp_all add: chain_A_def chain_B_def chain_C_def)
  have r: "[chain_C, chain_A, chain_B] \<in>
             {[chain_A, chain_B, chain_C], [chain_A, chain_C, chain_B],
              [chain_B, chain_A, chain_C], [chain_B, chain_C, chain_A],
              [chain_C, chain_A, chain_B], [chain_C, chain_B, chain_A]}"
    by simp
  from C1_chain_path [OF chain_ids chain_parents d(1,2) r] chain_ids chain_parents d
  show ?thesis by simp
qed

text \<open>
  C10: called with the source equal to the target, for an event that exists,
  \<open>findShortestPath\<close> does not answer "no path": it returns the path of that one event,
  with \<open>totalDurationMinutes\<close> the event's own duration (90 for the first event of the
  example chain, not 0). The route in front of it rejects equal identifiers and never
  makes this call.
\<close>

theorem C10_source_equals_target:
  assumes "distinct (map event_id rows)" and "e \<in> set rows"
  shows "findShortestPath rows (event_id e) (event_id e) =
           Some (Inr \<lparr> sourceEventId = event_id e, targetEventId = event_id e,
                        shortestPath = [path_entry_of e],
                        totalDurationMinutes = duration_minutes e,
                        message = ''Shortest temporal path found from source to target event.'' \<rparr>) \<and>
         (validate (event_id e) (event_id e) = None \<longrightarrow>
            event_influence_route validate rows (event_id e) (event_id e) =
              Some (ValidationError ''Source and target event IDs cannot be the same''))"
  using self_path [OF map_of_build_details [OF assms]]
  by (simp add: event_influence_route_def)

text \<open>C10 on the first event of the example chain.\<close>

theorem C10_source_equals_target_witness:
  "distinct (map event_id [chain_A, chain_B, chain_C]) \<and> chain_A \<in> set [chain_A, chain_B, chain_C] \<and>
   (\<exists>r. findShortestPath [chain_A, chain_B, chain_C] (event_id chain_A) (event_id chain_A)
           = Some (Inr r) \<and>
        map entry_event_id (shortestPath r) = [event_id chain_A] \<and>
        totalDurationMinutes r = 90 \<and>
        message r \<noteq> ''No temporal path found from source to target event.'') \<and>
   event_influence_route (\<lambda>s t. None) [chain_A, chain_B, chain_C]
       (event_id chain_A) (event_id chain_A) =
     Some (ValidationError ''Source and target event IDs cannot be the same'')"
proof -
  have d: "distinct (map event_id [chain_A, chain_B, chain_C])"
    by (simp add: chain_A_def chain_B_def chain_C_def)
  have m: "chain_A \<in> set [chain_A, chain_B, chain_C]" by simp
  from C10_source_equals_target [OF d m, of "\<lambda>s t. None"] d m
  show ?thesis
    by (simp add: path_entry_of_def chain_A_def)
qed

end
